theory Spec2Isabelle
  imports Main "HOL-Library.Sublist"
begin

section \<open>Python values of tools/config.py\<close>

text \<open>
  The module keeps its configuration in module-level globals whose values are Python
  objects.  A list is a mutable object with an identity: two globals (or a global and
  an entry of another list) can be bound to the same list object, and an in-place
  update through one name is seen through the other.  Lists therefore live in a store
  and a value refers to a list by its address; \<open>None\<close>, booleans, integers and strings
  are immutable and stand for themselves.  A string is read as its sequence of code
  points below 256, one \<open>char\<close> each.
\<close>

type_synonym addr = nat

datatype pyval = PNone | PBool bool | PInt int | PStr string | PList addr

text \<open>
  The store holds the contents of every list object, at the index that is its address.
  Allocation appends, so a new object never takes the address of a live one.  Every
  reference of a Python program is live; the model reads an address outside the
  store as the empty list.
\<close>

type_synonym heap = "pyval list list"

definition h_at :: "heap \<Rightarrow> addr \<Rightarrow> pyval list" where
  "h_at h a = (if a < length h then h ! a else [])"

definition alloc :: "heap \<Rightarrow> pyval list \<Rightarrow> addr \<times> heap" where
  "alloc h xs = (length h, h @ [xs])"

datatype error =
    UsageError
  | InlineConfig
  | ConfigNotFound string
  | EvalError string string string
  | NotDefined string string
  | EmptyValue string string
  | ConfigExists string
  | FileNotFoundError string
  | IsADirectoryError string
  | TypeError
  | IndexError
  | RecursionError

text \<open>Sequencing of steps that can fail: the first failure ends the run.\<close>

definition ebind :: "'e + 'a \<Rightarrow> ('a \<Rightarrow> 'e + 'b) \<Rightarrow> 'e + 'b" where
  "ebind m f = (case m of Inl e \<Rightarrow> Inl e | Inr x \<Rightarrow> f x)"

text \<open>Truth value of an object (\<open>if x\<close>, \<open>not x\<close>).\<close>

definition truthy :: "heap \<Rightarrow> pyval \<Rightarrow> bool" where
  "truthy h v = (case v of
      PNone \<Rightarrow> False
    | PBool b \<Rightarrow> b
    | PInt i \<Rightarrow> i \<noteq> 0
    | PStr s \<Rightarrow> s \<noteq> []
    | PList a \<Rightarrow> h_at h a \<noteq> [])"

text \<open>
  Equality \<open>x == y\<close>.  Two lists are equal when they are the same object, or have the
  same length and equal items; the items are compared from the left and the
  comparison stops at the first unequal pair.  A boolean compares as the integer 0
  or 1.  Each level of nesting takes one level of the interpreter's recursion limit
  \<open>n\<close>; when none is left the comparison raises \<open>RecursionError\<close>, the result \<open>None\<close>.
\<close>

fun num_of :: "pyval \<Rightarrow> int option" where
  "num_of (PBool b) = Some (if b then 1 else 0)"
| "num_of (PInt i) = Some i"
| "num_of _ = None"

definition scalar_eq :: "pyval \<Rightarrow> pyval \<Rightarrow> bool" where
  "scalar_eq x y =
     (case (num_of x, num_of y) of
        (Some i, Some j) \<Rightarrow> i = j
      | _ \<Rightarrow> x = y)"

fun py_eq :: "nat \<Rightarrow> heap \<Rightarrow> pyval \<Rightarrow> pyval \<Rightarrow> bool option"
  and py_eq_items :: "nat \<Rightarrow> heap \<Rightarrow> pyval list \<Rightarrow> pyval list \<Rightarrow> bool option" where
  "py_eq n h (PList p) (PList q) =
     (if p = q then Some True
      else if length (h_at h p) \<noteq> length (h_at h q) then Some False
      else if n = 0 then None
      else py_eq_items (n - 1) h (h_at h p) (h_at h q))"
| "py_eq n h x y = Some (scalar_eq x y)"
| "py_eq_items n h (x # xs) (y # ys) =
     (case py_eq n h x y of
        None \<Rightarrow> None
      | Some False \<Rightarrow> Some False
      | Some True \<Rightarrow> py_eq_items n h xs ys)"
| "py_eq_items n h [] [] = Some True"
| "py_eq_items n h _ _ = Some False"

text \<open>
  \<open>repr\<close> of a string: single quotes, unless the string has a single quote and no
  double quote; the quote and the backslash are escaped, tab, newline and carriage
  return are written \<open>\t\<close>, \<open>\n\<close>, \<open>\r\<close>, and a code point that is not printable as
  \<open>\xhh\<close>.
\<close>

definition hex_digit :: "nat \<Rightarrow> char" where
  "hex_digit d = ''0123456789abcdef'' ! (d mod 16)"

definition repr_char :: "char \<Rightarrow> char \<Rightarrow> string" where
  "repr_char q c =
     (let n = (of_char c :: nat) in
      if c = q \<or> c = CHR 0x5C then [CHR 0x5C, c]
      else if c = CHR 0x09 then [CHR 0x5C, CHR ''t'']
      else if c = CHR 0x0A then [CHR 0x5C, CHR ''n'']
      else if c = CHR 0x0D then [CHR 0x5C, CHR ''r'']
      else if n < 32 \<or> (127 \<le> n \<and> n \<le> 160) \<or> n = 173
        then [CHR 0x5C, CHR ''x'', hex_digit (n div 16), hex_digit (n mod 16)]
      else [c])"

definition repr_str :: "string \<Rightarrow> string" where
  "repr_str s =
     (let q = (if CHR 0x27 \<in> set s \<and> CHR 0x22 \<notin> set s then CHR 0x22 else CHR 0x27)
      in q # concat (map (repr_char q) s) @ [q])"

fun show_nat :: "nat \<Rightarrow> string" where
  "show_nat n =
     (if n < 10 then [hex_digit n] else show_nat (n div 10) @ [hex_digit (n mod 10)])"

definition show_int :: "int \<Rightarrow> string" where
  "show_int i = (if i < 0 then CHR ''-'' # show_nat (nat (- i)) else show_nat (nat i))"

fun join :: "string \<Rightarrow> string list \<Rightarrow> string" where
  "join sep [] = []"
| "join sep [x] = x"
| "join sep (x # y # ys) = x @ sep @ join sep (y # ys)"

text \<open>
  \<open>repr\<close> of a value.  A list is written with the \<open>repr\<close> of its items; a non-empty
  list met again inside its own \<open>repr\<close> is written \<open>[...]\<close> (\<open>stk\<close> holds the lists being
  written); nesting deeper than the recursion limit raises \<open>RecursionError\<close>.
  \<open>str\<close> of a string is the string, of anything else its \<open>repr\<close>.
\<close>

fun py_repr :: "nat \<Rightarrow> heap \<Rightarrow> addr list \<Rightarrow> pyval \<Rightarrow> string option"
  and py_repr_items :: "nat \<Rightarrow> heap \<Rightarrow> addr list \<Rightarrow> pyval list \<Rightarrow> string list option" where
  "py_repr n h stk PNone = Some ''None''"
| "py_repr n h stk (PBool b) = Some (if b then ''True'' else ''False'')"
| "py_repr n h stk (PInt i) = Some (show_int i)"
| "py_repr n h stk (PStr s) = Some (repr_str s)"
| "py_repr n h stk (PList a) =
     (if h_at h a = [] then Some ''[]''
      else if a \<in> set stk then Some ''[...]''
      else if n = 0 then None
      else (case py_repr_items (n - 1) h (a # stk) (h_at h a) of
              None \<Rightarrow> None
            | Some rs \<Rightarrow> Some (''['' @ join '', '' rs @ '']'')))"
| "py_repr_items n h stk [] = Some []"
| "py_repr_items n h stk (x # xs) =
     (case py_repr n h stk x of
        None \<Rightarrow> None
      | Some r \<Rightarrow>
          (case py_repr_items n h stk xs of
             None \<Rightarrow> None
           | Some rs \<Rightarrow> Some (r # rs)))"

definition py_str :: "nat \<Rightarrow> heap \<Rightarrow> pyval \<Rightarrow> string option" where
  "py_str n h v = (case v of PStr s \<Rightarrow> Some s | _ \<Rightarrow> py_repr n h [] v)"

text \<open>The substring test \<open>sub in s\<close> on strings.\<close>

fun is_substr :: "string \<Rightarrow> string \<Rightarrow> bool" where
  "is_substr sub [] = (sub = [])"
| "is_substr sub (c # cs) = (prefix sub (c # cs) \<or> is_substr sub cs)"

text \<open>
  Iteration \<open>for x in v\<close> and subscription \<open>v[0]\<close>: a list gives its items, a string
  its characters as strings of length one, anything else raises \<open>TypeError\<close>.
\<close>

definition py_iter :: "heap \<Rightarrow> pyval \<Rightarrow> error + pyval list" where
  "py_iter h v = (case v of
      PList a \<Rightarrow> Inr (h_at h a)
    | PStr s \<Rightarrow> Inr (map (\<lambda>c. PStr [c]) s)
    | _ \<Rightarrow> Inl TypeError)"

definition py_first :: "heap \<Rightarrow> pyval \<Rightarrow> error + pyval" where
  "py_first h v = (case v of
      PList a \<Rightarrow> (case h_at h a of [] \<Rightarrow> Inl IndexError | x # _ \<Rightarrow> Inr x)
    | PStr s \<Rightarrow> (case s of [] \<Rightarrow> Inl IndexError | c # _ \<Rightarrow> Inr (PStr [c]))
    | _ \<Rightarrow> Inl TypeError)"

section \<open>The module globals and the configuration keys\<close>

datatype config_key =
    NODE_JS | BINARYEN_ROOT | SPIDERMONKEY_ENGINE | V8_ENGINE | LLVM_ROOT
  | LLVM_ADD_VERSION | CLANG_ADD_VERSION | CLOSURE_COMPILER | JAVA | JS_ENGINE
  | JS_ENGINES | WASMER | WASMTIME | WASM_ENGINES | FROZEN_CACHE | CACHE | PORTS
  | COMPILER_WRAPPER

fun key_name :: "config_key \<Rightarrow> string" where
  "key_name NODE_JS = ''NODE_JS''"
| "key_name BINARYEN_ROOT = ''BINARYEN_ROOT''"
| "key_name SPIDERMONKEY_ENGINE = ''SPIDERMONKEY_ENGINE''"
| "key_name V8_ENGINE = ''V8_ENGINE''"
| "key_name LLVM_ROOT = ''LLVM_ROOT''"
| "key_name LLVM_ADD_VERSION = ''LLVM_ADD_VERSION''"
| "key_name CLANG_ADD_VERSION = ''CLANG_ADD_VERSION''"
| "key_name CLOSURE_COMPILER = ''CLOSURE_COMPILER''"
| "key_name JAVA = ''JAVA''"
| "key_name JS_ENGINE = ''JS_ENGINE''"
| "key_name JS_ENGINES = ''JS_ENGINES''"
| "key_name WASMER = ''WASMER''"
| "key_name WASMTIME = ''WASMTIME''"
| "key_name WASM_ENGINES = ''WASM_ENGINES''"
| "key_name FROZEN_CACHE = ''FROZEN_CACHE''"
| "key_name CACHE = ''CACHE''"
| "key_name PORTS = ''PORTS''"
| "key_name COMPILER_WRAPPER = ''COMPILER_WRAPPER''"

type_synonym globals = "config_key \<Rightarrow> pyval"

text \<open>
  The values the module binds at import (lines 19 to 37): every key is \<open>None\<close> but
  \<open>WASM_ENGINES\<close>, a fresh empty list.
\<close>

definition initial_globals :: "heap \<Rightarrow> globals \<times> heap" where
  "initial_globals h =
     (let (a, h') = alloc h [] in
      ((\<lambda>k. if k = WASM_ENGINES then PList a else PNone), h'))"

text \<open>The tuple \<open>CONFIG_KEYS\<close> of \<open>parse_config_file\<close>, in its order.\<close>

definition CONFIG_KEYS :: "config_key list" where
  "CONFIG_KEYS =
     [NODE_JS, BINARYEN_ROOT, SPIDERMONKEY_ENGINE, V8_ENGINE, LLVM_ROOT,
      LLVM_ADD_VERSION, CLANG_ADD_VERSION, CLOSURE_COMPILER, JAVA, JS_ENGINE,
      JS_ENGINES, WASMER, WASMTIME, WASM_ENGINES, FROZEN_CACHE, CACHE, PORTS,
      COMPILER_WRAPPER]"

text \<open>
  \<open>os.environ\<close> maps variable names to strings; the namespace that \<open>exec\<close> fills maps
  every name the configuration file binds to its value.
\<close>

type_synonym environ = "string \<rightharpoonup> string"
type_synonym namespace = "string \<rightharpoonup> pyval"

section \<open>The override loop of \<open>parse_config_file\<close> (lines 136 to 144)\<close>

definition merge_key :: "environ \<Rightarrow> namespace \<Rightarrow> config_key \<Rightarrow> globals \<Rightarrow> globals" where
  "merge_key env config key g =
     (let env_var = ''EM_'' @ key_name key in
      case env env_var of
        Some env_value \<Rightarrow> g(key := (if env_value = [] then PNone else PStr env_value))
      | None \<Rightarrow>
          (case config (key_name key) of
             Some v \<Rightarrow> g(key := v)
           | None \<Rightarrow> g))"

definition merge_config :: "environ \<Rightarrow> namespace \<Rightarrow> globals \<Rightarrow> globals" where
  "merge_config env config g = fold (merge_key env config) CONFIG_KEYS g"

section \<open>The mandatory keys (lines 159 to 167)\<close>

text \<open>
  \<open>exit_with_error\<close> ends the process with a message; the model returns the error,
  which carries the key and the path the message is formatted from.
\<close>

fun check_mandatory ::
  "string \<Rightarrow> namespace \<Rightarrow> globals \<Rightarrow> heap \<Rightarrow> config_key list \<Rightarrow> error + unit" where
  "check_mandatory EM_CONFIG config g h [] = Inr ()"
| "check_mandatory EM_CONFIG config g h (key # keys) =
     (if config (key_name key) = None then Inl (NotDefined (key_name key) EM_CONFIG)
      else if \<not> truthy h (g key) then Inl (EmptyValue (key_name key) EM_CONFIG)
      else check_mandatory EM_CONFIG config g h keys)"

definition MANDATORY_KEYS :: "config_key list" where
  "MANDATORY_KEYS = [LLVM_ROOT, NODE_JS, BINARYEN_ROOT]"

section \<open>The process and its surroundings\<close>

text \<open>
  What the module reads from outside itself: the argument list, the environment, the
  files, whether the toolchain root is writable (\<open>os.access(__rootpath__, os.W_OK)\<close>),
  and the interpreter's recursion limit.  \<open>__rootpath__\<close>, \<open>path_from_root\<close> (applied to the
  list of its arguments), \<open>which\<close> and the evaluation of the configuration text by
  \<open>exec\<close> are not part of the module and are taken as they are given: \<open>py_exec\<close> maps the
  text and the store to the message of the exception raised, or to the namespace bound
  and the store with the objects created.  \<open>expanduser\<close> is \<open>os.path.expanduser\<close>, which
  depends on the user database.
\<close>

datatype fs_node = File string | Dir

record process =
  argv :: "string list"
  environ :: environ
  fs :: "string \<rightharpoonup> fs_node"
  root_writable :: bool
  recursion_limit :: nat
  rootpath :: string
  path_from_root :: "string list \<Rightarrow> string"
  expanduser :: "string \<Rightarrow> string"
  which :: "string \<Rightarrow> string option"
  py_exec :: "string \<Rightarrow> heap \<Rightarrow> string + (namespace \<times> heap)"

definition root_is_writable :: "'a process_scheme \<Rightarrow> bool" where
  "root_is_writable p = root_writable p"

definition getenv :: "environ \<Rightarrow> string \<Rightarrow> pyval" where
  "getenv env name = (case env name of Some s \<Rightarrow> PStr s | None \<Rightarrow> PNone)"

text \<open>\<open>os.path.join\<close> of two components and \<open>os.path.dirname\<close>, as posixpath has them.\<close>

definition path_join :: "string \<Rightarrow> string \<Rightarrow> string" where
  "path_join a b =
     (if prefix ''/'' b then b
      else if a = [] \<or> last a = CHR ''/'' then a @ b
      else a @ ''/'' @ b)"

definition rstrip_sep :: "string \<Rightarrow> string" where
  "rstrip_sep s = rev (dropWhile (\<lambda>c. c = CHR ''/'') (rev s))"

definition dirname :: "string \<Rightarrow> string" where
  "dirname path =
     (let head = rev (dropWhile (\<lambda>c. c \<noteq> CHR ''/'') (rev path)) in
      if head \<noteq> [] \<and> head \<noteq> replicate (length head) (CHR ''/'') then rstrip_sep head
      else head)"

definition path_exists :: "(string \<rightharpoonup> fs_node) \<Rightarrow> string \<Rightarrow> bool" where
  "path_exists files path = (files path \<noteq> None)"

section \<open>Normalization (lines 40 to 99)\<close>

fun is_list :: "pyval \<Rightarrow> bool" where
  "is_list (PList a) = True"
| "is_list _ = False"

definition listify :: "heap \<Rightarrow> pyval \<Rightarrow> pyval \<times> heap" where
  "listify h x =
     (if x = PNone \<or> is_list x then (x, h)
      else (let (a, h') = alloc h [x] in (PList a, h')))"

text \<open>
  The comprehension \<open>[new if x == old else x for x in JS_ENGINES]\<close> of
  \<open>fix_js_engine\<close>, item by item.
\<close>

fun replace_engine :: "nat \<Rightarrow> heap \<Rightarrow> pyval \<Rightarrow> pyval \<Rightarrow> pyval list \<Rightarrow> error + pyval list" where
  "replace_engine n h old new [] = Inr []"
| "replace_engine n h old new (x # xs) =
     (case py_eq n h x old of
        None \<Rightarrow> Inl RecursionError
      | Some b \<Rightarrow>
          ebind (replace_engine n h old new xs)
            (\<lambda>ys. Inr ((if b then new else x) # ys)))"

text \<open>\<open>fix_js_engine\<close> returns its result and the globals with \<open>JS_ENGINES\<close> rebound.\<close>

definition fix_js_engine ::
  "nat \<Rightarrow> pyval \<Rightarrow> pyval \<Rightarrow> globals \<times> heap \<Rightarrow> error + (pyval \<times> globals \<times> heap)" where
  "fix_js_engine n old new = (\<lambda>(g, h).
     if old = PNone then Inr (PNone, g, h)
     else
       ebind (py_iter h (g JS_ENGINES)) (\<lambda>xs.
       ebind (replace_engine n h old new xs) (\<lambda>ys.
         let (a, h') = alloc h ys in Inr (new, g(JS_ENGINES := PList a), h'))))"

text \<open>Lines 63 to 66.\<close>

definition default_engines :: "globals \<times> heap \<Rightarrow> error + (globals \<times> heap)" where
  "default_engines = (\<lambda>(g, h).
     let (g1, h1) =
       (if \<not> truthy h (g JS_ENGINES)
        then (let (a, h') = alloc h [g NODE_JS] in (g(JS_ENGINES := PList a), h'))
        else (g, h))
     in
       if \<not> truthy h1 (g1 JS_ENGINE)
       then ebind (py_first h1 (g1 JS_ENGINES)) (\<lambda>x. Inr (g1(JS_ENGINE := x), h1))
       else Inr (g1, h1))"

text \<open>
  \<open>new_spidermonkey += ['-w']\<close>: on a list the statement extends the object in place,
  so every name bound to that object sees the new item; on any other value that can
  reach it (a string, a number) it raises \<open>TypeError\<close>.
\<close>

definition iadd_flag :: "heap \<Rightarrow> pyval \<Rightarrow> error + heap" where
  "iadd_flag h v = (case v of
      PList a \<Rightarrow> Inr (h[a := h_at h a @ [PStr ''-w'']])
    | _ \<Rightarrow> Inl TypeError)"

text \<open>Lines 69 to 73.\<close>

definition tweak_spidermonkey :: "nat \<Rightarrow> globals \<times> heap \<Rightarrow> error + (globals \<times> heap)" where
  "tweak_spidermonkey n = (\<lambda>(g, h).
     if truthy h (g SPIDERMONKEY_ENGINE) then
       (let new_spidermonkey = g SPIDERMONKEY_ENGINE in
        case py_str n h new_spidermonkey of
          None \<Rightarrow> Inl RecursionError
        | Some s \<Rightarrow>
            ebind (if \<not> is_substr ''-w'' s then iadd_flag h new_spidermonkey else Inr h)
              (\<lambda>h1.
            ebind (fix_js_engine n (g SPIDERMONKEY_ENGINE) new_spidermonkey (g, h1))
              (\<lambda>(r, g2, h2). Inr (g2(SPIDERMONKEY_ENGINE := r), h2))))
     else Inr (g, h))"

text \<open>Lines 74 to 76: \<open>KEY = fix_js_engine(KEY, listify(KEY))\<close>.\<close>

definition fix_key :: "nat \<Rightarrow> config_key \<Rightarrow> globals \<times> heap \<Rightarrow> error + (globals \<times> heap)" where
  "fix_key n key = (\<lambda>(g, h).
     let (new, h1) = listify h (g key) in
       ebind (fix_js_engine n (g key) new (g, h1))
         (\<lambda>(r, g2, h2). Inr (g2(key := r), h2)))"

text \<open>Lines 77 and 78: \<open>KEY = [listify(engine) for engine in KEY]\<close>.\<close>

fun listify_all :: "heap \<Rightarrow> pyval list \<Rightarrow> pyval list \<times> heap" where
  "listify_all h [] = ([], h)"
| "listify_all h (x # xs) =
     (let (y, h1) = listify h x; (ys, h2) = listify_all h1 xs in (y # ys, h2))"

definition listify_entries :: "config_key \<Rightarrow> globals \<times> heap \<Rightarrow> error + (globals \<times> heap)" where
  "listify_entries key = (\<lambda>(g, h).
     ebind (py_iter h (g key)) (\<lambda>xs.
       let (ys, h1) = listify_all h xs; (a, h2) = alloc h1 ys
       in Inr (g(key := PList a), h2)))"

text \<open>Line 79.\<close>

definition listify_key :: "config_key \<Rightarrow> globals \<times> heap \<Rightarrow> globals \<times> heap" where
  "listify_key key = (\<lambda>(g, h). let (v, h1) = listify h (g key) in (g(key := v), h1))"

text \<open>Lines 80 to 90.\<close>

definition derive_cache :: "'a process_scheme \<Rightarrow> globals \<times> heap \<Rightarrow> globals \<times> heap" where
  "derive_cache p = (\<lambda>(g, h).
     if \<not> truthy h (g CACHE) then
       (if truthy h (g FROZEN_CACHE) \<or> root_is_writable p
        then (g(CACHE := PStr (path_from_root p [''cache''])), h)
        else (g(CACHE := PStr (expanduser p (path_join ''~'' ''.emscripten_cache''))), h))
     else (g, h))"

text \<open>
  Lines 91 and 92.  \<open>os.path.join\<close> raises \<open>TypeError\<close> on a first argument that is
  not a string.
\<close>

definition derive_ports :: "globals \<times> heap \<Rightarrow> error + (globals \<times> heap)" where
  "derive_ports = (\<lambda>(g, h).
     if \<not> truthy h (g PORTS) then
       (case g CACHE of
          PStr c \<Rightarrow> Inr (g(PORTS := PStr (path_join c ''ports'')), h)
        | _ \<Rightarrow> Inl TypeError)
     else Inr (g, h))"

text \<open>Lines 95 to 99.\<close>

definition derive_version :: "environ \<Rightarrow> config_key \<Rightarrow> globals \<times> heap \<Rightarrow> globals \<times> heap" where
  "derive_version env key = (\<lambda>(g, h).
     if g key = PNone then (g(key := getenv env (key_name key)), h) else (g, h))"

definition normalize_config_settings ::
  "'a process_scheme \<Rightarrow> globals \<times> heap \<Rightarrow> error + (globals \<times> heap)" where
  "normalize_config_settings p s0 =
     ebind (default_engines s0) (\<lambda>s1.
     ebind (tweak_spidermonkey (recursion_limit p) s1) (\<lambda>s2.
     ebind (fix_key (recursion_limit p) NODE_JS s2) (\<lambda>s3.
     ebind (fix_key (recursion_limit p) V8_ENGINE s3) (\<lambda>s4.
     ebind (fix_key (recursion_limit p) JS_ENGINE s4) (\<lambda>s5.
     ebind (listify_entries JS_ENGINES s5) (\<lambda>s6.
     ebind (listify_entries WASM_ENGINES s6) (\<lambda>s7.
     ebind (derive_ports (derive_cache p (listify_key CLOSURE_COMPILER s7))) (\<lambda>s8.
       Inr (derive_version (environ p) CLANG_ADD_VERSION
             (derive_version (environ p) LLVM_ADD_VERSION s8))))))))))"

section \<open>\<open>parse_config_file\<close> (lines 102 to 169)\<close>

text \<open>
  \<open>utils.read_file\<close> is not part of the module.  Modelled from the spec: it returns the
  full text of the file at the path, and raises when there is no regular file there.
\<close>

definition read_file :: "(string \<rightharpoonup> fs_node) \<Rightarrow> string \<Rightarrow> error + string" where
  "read_file files path = (case files path of
      Some (File text) \<Rightarrow> Inr text
    | Some Dir \<Rightarrow> Inl (IsADirectoryError path)
    | None \<Rightarrow> Inl (FileNotFoundError path))"

text \<open>
  The loop over \<open>LEGACY_ENV_VARS\<close> (lines 149 to 157) only writes to the debug log and
  binds nothing; the model has no log and leaves it out.
\<close>

definition parse_config_file ::
  "'a process_scheme \<Rightarrow> string \<Rightarrow> globals \<times> heap \<Rightarrow> error + (globals \<times> heap)" where
  "parse_config_file p EM_CONFIG = (\<lambda>(g, h).
     ebind (read_file (fs p) EM_CONFIG) (\<lambda>config_text.
       case py_exec p config_text h of
         Inl e \<Rightarrow> Inl (EvalError EM_CONFIG e config_text)
       | Inr (config, h1) \<Rightarrow>
           (let g1 = merge_config (environ p) config g in
            ebind (check_mandatory EM_CONFIG config g1 h1 MANDATORY_KEYS) (\<lambda>_.
              if \<not> truthy h1 (g1 NODE_JS) then Inl (NotDefined ''NODE_JS'' EM_CONFIG)
              else normalize_config_settings p (g1, h1)))))"

section \<open>\<open>generate_config\<close> (lines 172 to 205)\<close>

text \<open>
  The string methods the generator uses.  \<open>splitlines\<close> ends a line at a line feed, a
  carriage return (with the line feed that follows it, if any), a vertical tab, a form
  feed, and the separators 0x1C, 0x1D, 0x1E and 0x85; \<open>replace\<close> substitutes the
  occurrences of \<open>old\<close> from the left, without overlap.
\<close>

definition is_linebreak :: "char \<Rightarrow> bool" where
  "is_linebreak c =
     (c \<in> {CHR 0x0A, CHR 0x0B, CHR 0x0C, CHR 0x0D, CHR 0x1C, CHR 0x1D, CHR 0x1E, CHR 0x85})"

fun splitlines_from :: "string \<Rightarrow> string \<Rightarrow> string list" where
  "splitlines_from cur [] = (if cur = [] then [] else [cur])"
| "splitlines_from cur [c] = (if is_linebreak c then [cur] else [cur @ [c]])"
| "splitlines_from cur (c # d # cs) =
     (if c = CHR 0x0D \<and> d = CHR 0x0A then cur # splitlines_from [] cs
      else if is_linebreak c then cur # splitlines_from [] (d # cs)
      else splitlines_from (cur @ [c]) (d # cs))"

definition splitlines :: "string \<Rightarrow> string list" where
  "splitlines s = splitlines_from [] s"

function py_replace :: "string \<Rightarrow> string \<Rightarrow> string \<Rightarrow> string" where
  "py_replace old new s =
     (if old = [] then new @ concat (map (\<lambda>c. c # new) s)
      else if s = [] then []
      else if prefix old s then new @ py_replace old new (drop (length old) s)
      else hd s # py_replace old new (tl s))"
  by pat_completeness auto
termination
  by (relation "measure (\<lambda>(old, new, s). length s)") (auto simp: neq_Nil_conv)

declare py_replace.simps [simp del]

text \<open>\<open>which(name) or default\<close>: the default also replaces an empty result.\<close>

definition or_else :: "string option \<Rightarrow> string \<Rightarrow> string" where
  "or_else r d = (case r of Some s \<Rightarrow> (if s = [] then d else s) | None \<Rightarrow> d)"

text \<open>
  \<open>utils.write_file\<close> is not part of the module.  Modelled from the spec: it writes the
  text to the target path, which then holds a regular file with that text.
\<close>

definition write_file :: "(string \<rightharpoonup> fs_node) \<Rightarrow> string \<Rightarrow> string \<Rightarrow> (string \<rightharpoonup> fs_node)" where
  "write_file files path text = files(path \<mapsto> File text)"

definition render_config :: "'a process_scheme \<Rightarrow> string \<Rightarrow> string" where
  "render_config p template =
     (let config_data = join [CHR 0x0A] (drop 3 (splitlines template));
          config_data = py_replace
            ([CHR 0x27] @ ''{{{ EMSCRIPTEN_ROOT }}}'' @ [CHR 0x27]) (repr_str (rootpath p)) config_data;
          llvm_root = dirname (or_else (which p ''llvm-dis'') ''/usr/bin/llvm-dis'');
          config_data = py_replace
            ([CHR 0x27] @ ''{{{ LLVM_ROOT }}}'' @ [CHR 0x27]) (repr_str llvm_root) config_data;
          node = or_else (which p ''node'') (or_else (which p ''nodejs'') ''node'')
      in py_replace ([CHR 0x27] @ ''{{{ NODE }}}'' @ [CHR 0x27]) (repr_str node) config_data)"

text \<open>
  The generator returns its result and the files as it leaves them.  The summary it
  prints goes to the diagnostic output, which the model does not keep.
\<close>

definition generate_config ::
  "'a process_scheme \<Rightarrow> string \<Rightarrow> (error + unit) \<times> (string \<rightharpoonup> fs_node)" where
  "generate_config p path =
     (if path_exists (fs p) path then (Inl (ConfigExists path), fs p)
      else
        (case read_file (fs p) (path_from_root p [''tools/config_template.py'']) of
           Inl e \<Rightarrow> (Inl e, fs p)
         | Inr template \<Rightarrow> (Inr (), write_file (fs p) path (render_config p template))))"

section \<open>The module body (lines 221 to 282)\<close>

definition embedded_config :: "'a process_scheme \<Rightarrow> string" where
  "embedded_config p = path_from_root p [''.emscripten'']"

definition emsdk_root :: "'a process_scheme \<Rightarrow> string" where
  "emsdk_root p = dirname (dirname (path_from_root p []))"

definition emsdk_embedded_config :: "'a process_scheme \<Rightarrow> string" where
  "emsdk_embedded_config p = path_join (emsdk_root p) ''.emscripten''"

definition user_home_config :: "'a process_scheme \<Rightarrow> string" where
  "user_home_config p = expanduser p ''~/.emscripten''"

text \<open>\<open>sys.argv.index(x)\<close>, called only when \<open>x\<close> is in the list.\<close>

definition index_of :: "'b \<Rightarrow> 'b list \<Rightarrow> nat" where
  "index_of x xs = length (takeWhile (\<lambda>y. y \<noteq> x) xs)"

text \<open>\<open>del xs[i]\<close> and \<open>xs.pop(i)\<close> for an index in range.\<close>

definition del_at :: "nat \<Rightarrow> 'b list \<Rightarrow> 'b list" where
  "del_at i xs = take i xs @ drop (Suc i) xs"

text \<open>
  Lines 238 to 258: the choice of \<open>EM_CONFIG\<close>.  The result is the path chosen and the
  process with the argument list as the choice leaves it.
\<close>

definition locate_config :: "'a process_scheme \<Rightarrow> error + (string \<times> 'a process_scheme)" where
  "locate_config p =
     (if ''--em-config'' \<in> set (argv p) then
        (let i = index_of ''--em-config'' (argv p) in
         if length (argv p) \<le> i + 1 then Inl UsageError
         else Inr (argv p ! (i + 1), p\<lparr>argv := del_at i (del_at (i + 1) (argv p))\<rparr>))
      else
        (case environ p ''EM_CONFIG'' of
           Some v \<Rightarrow> Inr (v, p)
         | None \<Rightarrow>
             if path_exists (fs p) (embedded_config p) then Inr (embedded_config p, p)
             else if path_exists (fs p) (emsdk_embedded_config p)
               then Inr (emsdk_embedded_config p, p)
             else if path_exists (fs p) (user_home_config p) then Inr (user_home_config p, p)
             else if root_is_writable p then Inr (embedded_config p, p)
             else Inr (user_home_config p, p)))"

text \<open>
  How the import of the module ends: the process exits (\<open>sys.exit\<close>) with a status, or
  the configuration is resolved from the path and held in the globals.
\<close>

datatype 'a run = Exited int "'a process_scheme" | Resolved "'a process_scheme" string globals heap

definition load_module :: "'a process_scheme \<Rightarrow> error + 'a run" where
  "load_module p =
     (let (g0, h0) = initial_globals [] in
      ebind (locate_config p) (\<lambda>(EM_CONFIG, p1).
        if CHR 0x0A \<in> set EM_CONFIG then Inl InlineConfig
        else
          (let EM_CONFIG = expanduser p1 EM_CONFIG in
           if ''--generate-config'' \<in> set (argv p1) then
             (case generate_config p1 EM_CONFIG of
                (Inl e, files) \<Rightarrow> Inl e
              | (Inr u, files) \<Rightarrow> Inr (Exited 0 (p1\<lparr>fs := files\<rparr>)))
           else if \<not> path_exists (fs p1) EM_CONFIG then Inl (ConfigNotFound EM_CONFIG)
           else
             (let p2 = p1\<lparr>environ := (environ p1)(''EM_CONFIG'' \<mapsto> EM_CONFIG)\<rparr> in
              ebind (parse_config_file p2 EM_CONFIG (g0, h0))
                (\<lambda>(g, h). Inr (Resolved p2 EM_CONFIG g h))))))"

section \<open>The statements of the specification\<close>

text \<open>
  The precedence chain in the words of the specification: the override variable
  \<open>EM_\<close> plus the key name wins, and when it is set to the empty string the key is
  unset; else the value the source binds; else the value the key had before.
\<close>

definition precedence_chain :: "environ \<Rightarrow> namespace \<Rightarrow> globals \<Rightarrow> config_key \<Rightarrow> pyval" where
  "precedence_chain env config g key =
     (case env (''EM_'' @ key_name key) of
        Some s \<Rightarrow> (if s = [] then PNone else PStr s)
      | None \<Rightarrow> (case config (key_name key) of Some v \<Rightarrow> v | None \<Rightarrow> g key))"

text \<open>A reference is live when its address is in the store; other values always are.\<close>

definition live :: "heap \<Rightarrow> pyval \<Rightarrow> bool" where
  "live h v = (case v of PList a \<Rightarrow> a < length h | _ \<Rightarrow> True)"

text \<open>
  The candidates of the source locator in the order of the specification, each with
  the condition under which it is chosen; the first whose condition holds wins.
\<close>

fun first_candidate :: "(bool \<times> string) list \<Rightarrow> string \<Rightarrow> string" where
  "first_candidate [] d = d"
| "first_candidate ((c, x) # cs) d = (if c then x else first_candidate cs d)"

definition candidates :: "'a process_scheme \<Rightarrow> (bool \<times> string) list" where
  "candidates p =
     [(environ p ''EM_CONFIG'' \<noteq> None, (case environ p ''EM_CONFIG'' of Some v \<Rightarrow> v | None \<Rightarrow> [])),
      (path_exists (fs p) (embedded_config p), embedded_config p),
      (path_exists (fs p) (emsdk_embedded_config p), emsdk_embedded_config p),
      (path_exists (fs p) (user_home_config p), user_home_config p),
      (root_is_writable p, embedded_config p)]"

text \<open>
  The directory two levels above the root, in the words of the specification.  A
  directory is given by its components under the file-system root, each a name that is
  not empty and has no separator: \<open>abs_path\<close> is its path, and the directory two levels
  above it has all its components but the last two.
\<close>

definition component :: "string \<Rightarrow> bool" where
  "component c \<longleftrightarrow> c \<noteq> [] \<and> CHR ''/'' \<notin> set c"

definition abs_path :: "string list \<Rightarrow> string" where
  "abs_path cs = concat (map (\<lambda>c. CHR ''/'' # c) cs)"

definition two_levels_above :: "string list \<Rightarrow> string list" where
  "two_levels_above cs = butlast (butlast cs)"

text \<open>
  A process to run the module on: a toolchain rooted at \<open>/emsdk/upstream/emscripten\<close>,
  a home directory \<open>/home/user\<close>, and a configuration file whose evaluation binds the
  given namespace and creates the given list objects.
\<close>

definition example_process :: "string list \<Rightarrow> environ \<Rightarrow> (string \<rightharpoonup> fs_node) \<Rightarrow> namespace \<Rightarrow> heap \<Rightarrow> process" where
  "example_process args env files config objs =
     \<lparr> argv = args, environ = env, fs = files, root_writable = True, recursion_limit = 1000,
       rootpath = ''/emsdk/upstream/emscripten'',
       path_from_root = (\<lambda>elems. fold (\<lambda>e acc. path_join acc e) elems ''/emsdk/upstream/emscripten''),
       expanduser = (\<lambda>s. if prefix ''~'' s then ''/home/user'' @ drop 1 s else s),
       which = (\<lambda>name. None),
       py_exec = (\<lambda>text h. Inr (config, h @ objs)) \<rparr>"

text \<open>An argument list that has the flag twice, the second time as its last argument.\<close>

definition repeated_flag_example :: process where
  "repeated_flag_example =
     example_process [''emcc'', ''--em-config'', ''/a'', ''--em-config''] Map.empty Map.empty Map.empty []"

text \<open>
  Relations between the state before and after a step.  A store grows when every
  object it had is still there and is empty exactly when it was; a step frames a set
  of keys when it leaves every other key as it was and only adds objects to the store
  (\<open>frame\<close>), or lets the store grow (\<open>gframe\<close>).
\<close>

definition grows :: "heap \<Rightarrow> heap \<Rightarrow> bool" where
  "grows h h' \<longleftrightarrow>
     length h \<le> length h' \<and> (\<forall>a < length h. (h' ! a = []) = (h ! a = []))"

definition frame :: "config_key set \<Rightarrow> globals \<times> heap \<Rightarrow> globals \<times> heap \<Rightarrow> bool" where
  "frame K s s' \<longleftrightarrow> (\<forall>k. k \<notin> K \<longrightarrow> fst s' k = fst s k) \<and> prefix (snd s) (snd s')"

definition gframe :: "config_key set \<Rightarrow> globals \<times> heap \<Rightarrow> globals \<times> heap \<Rightarrow> bool" where
  "gframe K s s' \<longleftrightarrow> (\<forall>k. k \<notin> K \<longrightarrow> fst s' k = fst s k) \<and> grows (snd s) (snd s')"

definition engine_keys :: "config_key set" where
  "engine_keys = {JS_ENGINES, JS_ENGINE, SPIDERMONKEY_ENGINE, NODE_JS, V8_ENGINE, WASM_ENGINES,
     CLOSURE_COMPILER}"

text \<open>The value of a key, and the items of its value, in the result of a run.\<close>

definition final_value :: "config_key \<Rightarrow> error + (globals \<times> heap) \<Rightarrow> error + pyval" where
  "final_value key r = (case r of Inl e \<Rightarrow> Inl e | Inr (g, h) \<Rightarrow> Inr (g key))"

definition final_items :: "config_key \<Rightarrow> error + (globals \<times> heap) \<Rightarrow> error + pyval list" where
  "final_items key r = (case r of Inl e \<Rightarrow> Inl e | Inr (g, h) \<Rightarrow> py_iter h (g key))"



text \<open>
  Shapes of the engines: \<open>JS_ENGINES\<close> is a list holding the one string \<open>E\<close>
  (\<open>raw_engine\<close>), or holding one list that holds the one string \<open>E\<close> (\<open>one_engine\<close>);
  a key holds a list with the one string \<open>E\<close> (\<open>holds_command\<close>).
\<close>

definition raw_engine :: "string \<Rightarrow> globals \<times> heap \<Rightarrow> bool" where
  "raw_engine E s \<longleftrightarrow>
     (\<exists>l. fst s JS_ENGINES = PList l \<and> l < length (snd s) \<and> snd s ! l = [PStr E])"

definition one_engine :: "string \<Rightarrow> globals \<times> heap \<Rightarrow> bool" where
  "one_engine E s \<longleftrightarrow>
     (\<exists>l b. fst s JS_ENGINES = PList l \<and> l < length (snd s) \<and> snd s ! l = [PList b]
        \<and> b < length (snd s) \<and> snd s ! b = [PStr E])"

definition holds_command :: "config_key \<Rightarrow> string \<Rightarrow> globals \<times> heap \<Rightarrow> bool" where
  "holds_command key E s \<longleftrightarrow>
     (\<exists>c. fst s key = PList c \<and> c < length (snd s) \<and> snd s ! c = [PStr E])"

text \<open>
  Configurations to run: the three mandatory keys alone; with an explicit \<open>JS_ENGINE\<close>;
  with \<open>EM_SPIDERMONKEY_ENGINE\<close> set in the environment; with a Spidermonkey command
  whose path has \<open>-w\<close> inside a word; and with a Spidermonkey command \<open>['js']\<close> and an
  engines list \<open>[['node'], ['js']]\<close> built from two separate lists.
\<close>

definition base_config :: namespace where
  "base_config =
     [''NODE_JS'' \<mapsto> PStr ''node'', ''LLVM_ROOT'' \<mapsto> PStr ''/llvm'',
      ''BINARYEN_ROOT'' \<mapsto> PStr ''/binaryen'']"

definition explicit_engine_example :: process where
  "explicit_engine_example =
     example_process [''emcc''] Map.empty [''/cfg'' \<mapsto> File ''NODE_JS = 1'']
       (base_config(''JS_ENGINE'' \<mapsto> PStr ''d8'')) []"

definition spidermonkey_string_example :: process where
  "spidermonkey_string_example =
     example_process [''emcc''] [''EM_SPIDERMONKEY_ENGINE'' \<mapsto> ''js -w'']
       [''/cfg'' \<mapsto> File ''NODE_JS = 1''] base_config []"

definition spidermonkey_substring_example :: process where
  "spidermonkey_substring_example =
     example_process [''emcc''] Map.empty [''/cfg'' \<mapsto> File ''NODE_JS = 1'']
       (base_config(''SPIDERMONKEY_ENGINE'' \<mapsto> PList 1)) [[PStr ''/opt/js-wrapper/js'']]"

definition spidermonkey_copy_example :: process where
  "spidermonkey_copy_example =
     example_process [''emcc''] Map.empty [''/cfg'' \<mapsto> File ''NODE_JS = 1'']
       (base_config(''SPIDERMONKEY_ENGINE'' \<mapsto> PList 1, ''JS_ENGINES'' \<mapsto> PList 2))
       [[PStr ''js''], [PList 3, PList 4], [PStr ''node''], [PStr ''js'']]"

text \<open>
  A store is closed when every reference held in one of its lists is live, as in any
  Python state.  \<open>engines_len m\<close>: \<open>JS_ENGINES\<close> is a list of \<open>m\<close> entries.
\<close>

definition closed :: "heap \<Rightarrow> bool" where
  "closed h \<longleftrightarrow> (\<forall>xs \<in> set h. \<forall>v \<in> set xs. live h v)"

definition engines_len :: "nat \<Rightarrow> globals \<times> heap \<Rightarrow> bool" where
  "engines_len m s \<longleftrightarrow>
     (\<exists>l. fst s JS_ENGINES = PList l \<and> l < length (snd s) \<and> length (snd s ! l) = m)"

text \<open>
  \<open>entry_holds i F\<close>: entry \<open>i\<close> of \<open>JS_ENGINES\<close> is a list object with the items \<open>F\<close>;
  \<open>strings xs\<close>: every item of \<open>xs\<close> is a string, as in a command.
\<close>

definition entry_holds :: "nat \<Rightarrow> pyval list \<Rightarrow> globals \<times> heap \<Rightarrow> bool" where
  "entry_holds i F s \<longleftrightarrow>
     (\<exists>l b. fst s JS_ENGINES = PList l \<and> l < length (snd s) \<and> i < length (snd s ! l)
        \<and> snd s ! l ! i = PList b \<and> b < length (snd s) \<and> snd s ! b = F)"

definition strings :: "pyval list \<Rightarrow> bool" where
  "strings xs \<longleftrightarrow> (\<forall>x \<in> set xs. \<exists>s. x = PStr s)"

text \<open>
  Two more configurations: \<open>EM_SPIDERMONKEY_ENGINE\<close> set to \<open>js\<close> in the environment; and a
  source that binds \<open>JS_ENGINES\<close> and \<open>SPIDERMONKEY_ENGINE\<close> to the same list \<open>['js']\<close>.
\<close>

definition spidermonkey_unflagged_string_example :: process where
  "spidermonkey_unflagged_string_example =
     example_process [''emcc''] [''EM_SPIDERMONKEY_ENGINE'' \<mapsto> ''js'']
       [''/cfg'' \<mapsto> File ''NODE_JS = 1''] base_config []"

definition spidermonkey_alias_example :: process where
  "spidermonkey_alias_example =
     example_process [''emcc''] Map.empty [''/cfg'' \<mapsto> File ''NODE_JS = 1'']
       (base_config(''SPIDERMONKEY_ENGINE'' \<mapsto> PList 1, ''JS_ENGINES'' \<mapsto> PList 1))
       [[PStr ''js'']]"

text \<open>
  A state on entry to normalization with \<open>SPIDERMONKEY_ENGINE = ['js']\<close> and
  \<open>JS_ENGINES = [NODE_JS, SPIDERMONKEY_ENGINE]\<close>, the second entry being the
  Spidermonkey list itself.
\<close>

definition spidermonkey_state :: "globals \<times> heap" where
  "spidermonkey_state =
     ((\<lambda>k. PNone)(NODE_JS := PStr ''node'', SPIDERMONKEY_ENGINE := PList 1,
        JS_ENGINES := PList 2, WASM_ENGINES := PList 0),
      [[], [PStr ''js''], [PStr ''node'', PList 1]])"

text \<open>
  What a resolution reads.  Two processes have the same inputs when they agree on the
  argument list, the environment, whether the root is writable, the recursion limit,
  the paths under the root, the home directory and the evaluation of a source text;
  the paths consulted are the three default locations and the path chosen; the
  resolved configuration is the path, the globals and the store the module ends with.
\<close>

definition consulted_paths :: "'a process_scheme \<Rightarrow> string set" where
  "consulted_paths p =
     {embedded_config p, emsdk_embedded_config p, user_home_config p}
     \<union> (case locate_config p of Inl e \<Rightarrow> {} | Inr (c, p1) \<Rightarrow> {expanduser p c})"

definition resolved_config :: "error + 'a run \<Rightarrow> error + (string \<times> globals \<times> heap) option" where
  "resolved_config r = (case r of
      Inl e \<Rightarrow> Inl e
    | Inr (Exited n p) \<Rightarrow> Inr None
    | Inr (Resolved p path g h) \<Rightarrow> Inr (Some (path, g, h)))"

definition same_inputs :: "'a process_scheme \<Rightarrow> 'a process_scheme \<Rightarrow> bool" where
  "same_inputs p q \<longleftrightarrow>
     argv q = argv p \<and> environ q = environ p \<and> root_writable q = root_writable p
     \<and> recursion_limit q = recursion_limit p \<and> path_from_root q = path_from_root p
     \<and> expanduser q = expanduser p \<and> py_exec q = py_exec p"

section \<open>The override loop\<close>

lemma merge_key_same: "merge_key env config k g k = precedence_chain env config g k"
  by (simp add: merge_key_def precedence_chain_def split: option.splits)

lemma merge_key_other: "k' \<noteq> k \<Longrightarrow> merge_key env config k g k' = g k'"
  by (simp add: merge_key_def split: option.splits)

lemma precedence_chain_cong:
  "g k = g' k \<Longrightarrow> precedence_chain env config g k = precedence_chain env config g' k"
  by (simp add: precedence_chain_def split: option.splits)

lemma fold_merge_key:
  "distinct ks \<Longrightarrow>
   fold (merge_key env config) ks g k =
     (if k \<in> set ks then precedence_chain env config g k else g k)"
proof (induction ks arbitrary: g)
  case Nil
  then show ?case by simp
next
  case (Cons a ks)
  show ?case
  proof (cases "k = a")
    case True
    with Cons show ?thesis by (simp add: merge_key_same)
  next
    case False
    with Cons show ?thesis
      by (simp add: merge_key_other
          precedence_chain_cong [of "merge_key env config a g" k g])
  qed
qed

lemma CONFIG_KEYS_distinct: "distinct CONFIG_KEYS"
  by (simp add: CONFIG_KEYS_def)

lemma CONFIG_KEYS_all: "k \<in> set CONFIG_KEYS"
  by (cases k) (simp_all add: CONFIG_KEYS_def)

lemma merge_config_key: "merge_config env config g k = precedence_chain env config g k"
  by (simp add: merge_config_def fold_merge_key CONFIG_KEYS_distinct CONFIG_KEYS_all)

text \<open>
  C10.  When the override variable of a key is set to a non-empty string, the value
  of the key right after the override loop is that string itself, a single string:
  the loop neither parses nor splits nor wraps it, whatever the key, also for the keys
  that hold a list or a list of lists such as \<open>JS_ENGINES\<close> and \<open>WASM_ENGINES\<close>.
\<close>

theorem override_is_the_string:
  "env (''EM_'' @ key_name k) = Some s \<Longrightarrow> s \<noteq> [] \<Longrightarrow> merge_config env config g k = PStr s"
  by (simp add: merge_config_key precedence_chain_def)

theorem override_is_the_string_witness:
  "[''EM_JS_ENGINES'' \<mapsto> ''node''] (''EM_'' @ key_name JS_ENGINES) = Some ''node'' \<and>
   ''node'' \<noteq> [] \<and>
   merge_config [''EM_JS_ENGINES'' \<mapsto> ''node''] [''JS_ENGINES'' \<mapsto> PList 0]
     (\<lambda>k. PNone) JS_ENGINES = PStr ''node''"
  using override_is_the_string [of "[''EM_JS_ENGINES'' \<mapsto> ''node'']" JS_ENGINES "''node''"
      "[''JS_ENGINES'' \<mapsto> PList 0]" "\<lambda>k. PNone"]
  by simp

section \<open>The mandatory keys\<close>

lemma check_mandatory_ok:
  "check_mandatory p config g h ks = Inr () \<longleftrightarrow>
     (\<forall>k \<in> set ks. config (key_name k) \<noteq> None \<and> truthy h (g k))"
  by (induction ks) auto

lemma check_mandatory_fail:
  "check_mandatory p config g h ks = Inl e \<Longrightarrow>
     \<exists>k \<in> set ks. (config (key_name k) = None \<and> e = NotDefined (key_name k) p)
        \<or> (config (key_name k) \<noteq> None \<and> \<not> truthy h (g k)
            \<and> e = EmptyValue (key_name k) p)"
  by (induction ks) (auto split: if_splits)

text \<open>
  C2.  Let the source be read and evaluated to a raw mapping.  If one of \<open>LLVM_ROOT\<close>,
  \<open>NODE_JS\<close>, \<open>BINARYEN_ROOT\<close> is absent from the raw mapping, or its merged value is
  empty, \<open>parse_config_file\<close> ends with a fatal error that names such a key and the
  source path; the error is the result of the whole resolution, so normalization has
  not run.  Conversely, when the three keys are in the raw mapping and their merged
  values are not empty, the check passes and the resolution goes on to normalization.
\<close>

theorem mandatory_keys_checked:
  assumes "read_file (fs p) path = Inr text"
    and "py_exec p text h = Inr (config, h1)"
  shows "((\<exists>k \<in> set MANDATORY_KEYS. config (key_name k) = None
              \<or> \<not> truthy h1 (merge_config (environ p) config g k)) \<longrightarrow>
          (\<exists>k \<in> set MANDATORY_KEYS.
              (config (key_name k) = None \<and>
               parse_config_file p path (g, h) = Inl (NotDefined (key_name k) path))
            \<or> (config (key_name k) \<noteq> None \<and>
               \<not> truthy h1 (merge_config (environ p) config g k) \<and>
               parse_config_file p path (g, h) = Inl (EmptyValue (key_name k) path))))
       \<and> ((\<forall>k \<in> set MANDATORY_KEYS. config (key_name k) \<noteq> None
              \<and> truthy h1 (merge_config (environ p) config g k)) \<longrightarrow>
          check_mandatory path config (merge_config (environ p) config g) h1 MANDATORY_KEYS
            = Inr ()
          \<and> parse_config_file p path (g, h) =
              normalize_config_settings p (merge_config (environ p) config g, h1))"
proof (intro conjI impI)
  let ?g1 = "merge_config (environ p) config g"
  assume bad: "\<exists>k \<in> set MANDATORY_KEYS. config (key_name k) = None \<or> \<not> truthy h1 (?g1 k)"
  have "check_mandatory path config ?g1 h1 MANDATORY_KEYS \<noteq> Inr ()"
    using bad by (auto simp: check_mandatory_ok)
  then obtain e where e: "check_mandatory path config ?g1 h1 MANDATORY_KEYS = Inl e"
    by (cases "check_mandatory path config ?g1 h1 MANDATORY_KEYS") auto
  have res: "parse_config_file p path (g, h) = Inl e"
    using assms e by (simp add: parse_config_file_def ebind_def)
  from check_mandatory_fail [OF e] res
  show "\<exists>k \<in> set MANDATORY_KEYS.
              (config (key_name k) = None \<and>
               parse_config_file p path (g, h) = Inl (NotDefined (key_name k) path))
            \<or> (config (key_name k) \<noteq> None \<and> \<not> truthy h1 (?g1 k) \<and>
               parse_config_file p path (g, h) = Inl (EmptyValue (key_name k) path))"
    by auto
next
  let ?g1 = "merge_config (environ p) config g"
  assume ok: "\<forall>k \<in> set MANDATORY_KEYS. config (key_name k) \<noteq> None \<and> truthy h1 (?g1 k)"
  then show c: "check_mandatory path config ?g1 h1 MANDATORY_KEYS = Inr ()"
    by (simp add: check_mandatory_ok)
  have "truthy h1 (?g1 NODE_JS)" using ok by (simp add: MANDATORY_KEYS_def)
  then show "parse_config_file p path (g, h) = normalize_config_settings p (?g1, h1)"
    using assms c by (simp add: parse_config_file_def ebind_def)
qed

lemma initial_globals_Nil:
  "initial_globals [] = ((\<lambda>k. if k = WASM_ENGINES then PList 0 else PNone), [[]])"
  by (simp add: initial_globals_def alloc_def)

theorem mandatory_keys_checked_witness:
  "parse_config_file
     (example_process [''emcc''] Map.empty [''/cfg'' \<mapsto> File ''LLVM_ROOT = 1'']
        [''LLVM_ROOT'' \<mapsto> PStr ''/llvm'', ''BINARYEN_ROOT'' \<mapsto> PStr ''/binaryen''] [])
     ''/cfg'' (initial_globals []) = Inl (NotDefined ''NODE_JS'' ''/cfg'')
   \<and> parse_config_file
     (example_process [''emcc''] [''EM_NODE_JS'' \<mapsto> []] [''/cfg'' \<mapsto> File ''LLVM_ROOT = 1'']
        [''LLVM_ROOT'' \<mapsto> PStr ''/llvm'', ''NODE_JS'' \<mapsto> PStr ''node'', ''BINARYEN_ROOT'' \<mapsto> PStr ''/binaryen''] [])
     ''/cfg'' (initial_globals []) = Inl (EmptyValue ''NODE_JS'' ''/cfg'')
   \<and> check_mandatory ''/cfg''
        [''LLVM_ROOT'' \<mapsto> PStr ''/llvm'', ''NODE_JS'' \<mapsto> PStr ''node'', ''BINARYEN_ROOT'' \<mapsto> PStr ''/binaryen'']
        (merge_config Map.empty
           [''LLVM_ROOT'' \<mapsto> PStr ''/llvm'', ''NODE_JS'' \<mapsto> PStr ''node'', ''BINARYEN_ROOT'' \<mapsto> PStr ''/binaryen'']
           (fst (initial_globals [])))
        [[]] MANDATORY_KEYS = Inr ()"
proof (intro conjI)
  let ?bad = "[''LLVM_ROOT'' \<mapsto> PStr ''/llvm'', ''BINARYEN_ROOT'' \<mapsto> PStr ''/binaryen'']"
  let ?ok = "[''LLVM_ROOT'' \<mapsto> PStr ''/llvm'', ''NODE_JS'' \<mapsto> PStr ''node'', ''BINARYEN_ROOT'' \<mapsto> PStr ''/binaryen'']"
  let ?files = "[''/cfg'' \<mapsto> File ''LLVM_ROOT = 1'']"
  let ?g0 = "\<lambda>k. if k = WASM_ENGINES then PList 0 else PNone"
  show "parse_config_file (example_process [''emcc''] Map.empty ?files ?bad []) ''/cfg'' (initial_globals [])
      = Inl (NotDefined ''NODE_JS'' ''/cfg'')"
    using mandatory_keys_checked [of "example_process [''emcc''] Map.empty ?files ?bad []" "''/cfg''"
        "''LLVM_ROOT = 1''" "[[]]" ?bad "[[]]" ?g0]
    by (simp add: initial_globals_Nil example_process_def read_file_def MANDATORY_KEYS_def merge_config_key
        precedence_chain_def truthy_def)
  show "parse_config_file (example_process [''emcc''] [''EM_NODE_JS'' \<mapsto> []] ?files ?ok []) ''/cfg'' (initial_globals [])
      = Inl (EmptyValue ''NODE_JS'' ''/cfg'')"
    using mandatory_keys_checked [of "example_process [''emcc''] [''EM_NODE_JS'' \<mapsto> []] ?files ?ok []" "''/cfg''"
        "''LLVM_ROOT = 1''" "[[]]" ?ok "[[]]" ?g0]
    by (simp add: initial_globals_Nil example_process_def read_file_def MANDATORY_KEYS_def merge_config_key
        precedence_chain_def truthy_def)
  show "check_mandatory ''/cfg'' ?ok (merge_config Map.empty ?ok (fst (initial_globals []))) [[]] MANDATORY_KEYS = Inr ()"
    using mandatory_keys_checked [of "example_process [''emcc''] Map.empty ?files ?ok []" "''/cfg''"
        "''LLVM_ROOT = 1''" "[[]]" ?ok "[[]]" ?g0]
    by (simp add: initial_globals_Nil example_process_def read_file_def MANDATORY_KEYS_def merge_config_key
        precedence_chain_def truthy_def)
qed


section \<open>The source locator\<close>

lemma takeWhile_flag: "x \<notin> set pre \<Longrightarrow> takeWhile (\<lambda>y. y \<noteq> x) (pre @ x # rest) = pre"
  by (induction pre) auto

lemma index_of_first: "x \<notin> set pre \<Longrightarrow> index_of x (pre @ x # rest) = length pre"
  by (simp add: index_of_def takeWhile_flag)

lemma abs_path_snoc: "abs_path (cs @ [c]) = abs_path cs @ CHR ''/'' # c"
  by (simp add: abs_path_def)

lemma abs_path_last:
  "cs \<noteq> [] \<Longrightarrow> \<forall>c \<in> set cs. component c \<Longrightarrow> abs_path cs \<noteq> [] \<and> last (abs_path cs) \<noteq> CHR ''/''"
proof (induction cs rule: rev_induct)
  case Nil
  then show ?case by simp
next
  case (snoc c cs)
  then have "c \<noteq> []" "last c \<noteq> CHR ''/''"
    by (auto simp: component_def dest: last_in_set)
  then show ?case by (simp add: abs_path_snoc)
qed

lemma dirname_abs_path:
  assumes "component c" and "\<forall>x \<in> set cs. component x"
  shows "dirname (abs_path (cs @ [c])) = (if cs = [] then ''/'' else abs_path cs)"
proof -
  have dw: "dropWhile (\<lambda>x. x \<noteq> CHR ''/'') (rev c @ CHR ''/'' # rev (abs_path cs)) = CHR ''/'' # rev (abs_path cs)"
    using assms(1) by (simp add: component_def dropWhile_append)
  have head: "rev (dropWhile (\<lambda>x. x \<noteq> CHR ''/'') (rev (abs_path (cs @ [c])))) = abs_path cs @ ''/''"
    by (simp add: abs_path_snoc dw)
  show ?thesis
  proof (cases "cs = []")
    case True
    then show ?thesis
      unfolding dirname_def head by (simp add: abs_path_def Let_def)
  next
    case False
    from abs_path_last [OF False assms(2)]
    have ne: "abs_path cs \<noteq> []" and l: "last (abs_path cs) \<noteq> CHR ''/''" by auto
    have "last (abs_path cs) \<in> set (abs_path cs)" using ne by simp
    then have nr: "abs_path cs @ ''/'' \<noteq> replicate (length (abs_path cs @ ''/'')) (CHR ''/'')"
      using l by (metis in_set_replicate set_append UnI1)
    have hd: "hd (rev (abs_path cs)) \<noteq> CHR ''/''" using ne l by (simp add: hd_rev)
    have rs: "rstrip_sep (abs_path cs @ ''/'') = abs_path cs"
      using ne hd by (cases "rev (abs_path cs)") (auto simp: rstrip_sep_def)
    show ?thesis
      unfolding dirname_def head using False nr rs by (simp add: Let_def)
  qed
qed

lemma emsdk_embedded_config_two_levels:
  assumes root: "path_from_root p [] = abs_path cs"
    and comp: "\<forall>c \<in> set cs. component c" and len: "2 \<le> length cs"
  shows "emsdk_embedded_config p = abs_path (two_levels_above cs @ [''.emscripten''])"
proof -
  have ne: "cs \<noteq> []" "butlast cs \<noteq> []"
    using len by (auto simp: length_0_conv [symmetric] simp del: length_0_conv)
  have a: "butlast cs @ [last cs] = cs" using ne(1) by simp
  have b: "butlast (butlast cs) @ [last (butlast cs)] = butlast cs" using ne(2) by simp
  have "cs = (butlast (butlast cs) @ [last (butlast cs)]) @ [last cs]"
    by (simp only: b a)
  then have "cs = butlast (butlast cs) @ [last (butlast cs), last cs]" by simp
  then obtain cs' c1 c2 where cs: "cs = cs' @ [c1, c2]" by blast
  have c: "component c1" "component c2" "\<forall>x \<in> set cs'. component x"
    using comp cs by auto
  have "cs = (cs' @ [c1]) @ [c2]" using cs by simp
  then have d1: "dirname (abs_path cs) = abs_path (cs' @ [c1])"
    using dirname_abs_path [of c2 "cs' @ [c1]"] c by simp
  have d2: "dirname (abs_path (cs' @ [c1])) = (if cs' = [] then ''/'' else abs_path cs')"
    using c(1) c(3) by (rule dirname_abs_path)
  have t: "two_levels_above cs = cs'" by (simp add: cs two_levels_above_def butlast_append)
  have r: "emsdk_root p = (if cs' = [] then ''/'' else abs_path cs')"
    by (simp add: emsdk_root_def root d1 d2)
  show ?thesis
  proof (cases "cs' = []")
    case True
    then show ?thesis
      by (simp add: emsdk_embedded_config_def r t path_join_def abs_path_def)
  next
    case False
    from abs_path_last [OF False c(3)] show ?thesis
      using False
      by (simp add: emsdk_embedded_config_def r t path_join_def abs_path_snoc)
  qed
qed


text \<open>
  C6, as amended.  The locator chooses one path.  When \<open>--em-config\<close> is in the argument
  list, the path is the argument that follows the first occurrence of the flag, and
  that occurrence and its argument are removed from the argument list; when nothing
  follows the first occurrence the resolution fails with a usage error.  Without the
  flag the path is the first of: the value of \<open>EM_CONFIG\<close> in the environment; the default
  next to the root, if it exists; the one two levels above the root, if it exists; the
  one in the home directory, if it exists; the default next to the root when the root
  is writable; and else the one in the home directory.  For a root with the components
  \<open>cs\<close>, at least two, the path two levels above the root is \<open>.emscripten\<close> in the directory
  that has the components of \<open>cs\<close> but the last two.
\<close>

theorem source_locator_order:
  "(\<forall>pre v post. argv p = pre @ ''--em-config'' # v # post \<and> ''--em-config'' \<notin> set pre \<longrightarrow>
       locate_config p = Inr (v, p\<lparr>argv := pre @ post\<rparr>))
   \<and> (\<forall>pre. argv p = pre @ [''--em-config''] \<and> ''--em-config'' \<notin> set pre \<longrightarrow>
       locate_config p = Inl UsageError)
   \<and> (''--em-config'' \<notin> set (argv p) \<longrightarrow>
       locate_config p = Inr (first_candidate (candidates p) (user_home_config p), p))
   \<and> (\<forall>cs. path_from_root p [] = abs_path cs \<and> (\<forall>c \<in> set cs. component c) \<and> 2 \<le> length cs \<longrightarrow>
       emsdk_embedded_config p = abs_path (two_levels_above cs @ [''.emscripten'']))"
proof (intro conjI allI impI)
  fix pre v post
  assume a: "argv p = pre @ ''--em-config'' # v # post \<and> ''--em-config'' \<notin> set pre"
  then have i: "index_of ''--em-config'' (argv p) = length pre"
    by (simp add: index_of_first)
  have d: "del_at (length pre) (del_at (length pre + 1) (pre @ ''--em-config'' # v # post)) = pre @ post"
    by (simp add: del_at_def)
  have n: "(pre @ ''--em-config'' # v # post) ! (length pre + 1) = v"
    by (simp add: nth_append)
  show "locate_config p = Inr (v, p\<lparr>argv := pre @ post\<rparr>)"
    using a i d n by (simp add: locate_config_def Let_def)
next
  fix pre
  assume a: "argv p = pre @ [''--em-config''] \<and> ''--em-config'' \<notin> set pre"
  then have i: "index_of ''--em-config'' (argv p) = length pre"
    by (simp add: index_of_first)
  show "locate_config p = Inl UsageError"
    using a i by (simp add: locate_config_def Let_def)
next
  assume "''--em-config'' \<notin> set (argv p)"
  then show "locate_config p = Inr (first_candidate (candidates p) (user_home_config p), p)"
    by (simp add: locate_config_def candidates_def split: option.splits)
next
  fix cs
  assume "path_from_root p [] = abs_path cs \<and> (\<forall>c \<in> set cs. component c) \<and> 2 \<le> length cs"
  then show "emsdk_embedded_config p = abs_path (two_levels_above cs @ [''.emscripten''])"
    by (simp add: emsdk_embedded_config_two_levels)
qed

text \<open>
  C6 as stated fails: in \<open>emcc --em-config /a --em-config\<close> the flag is the last
  argument and nothing follows it, but \<open>sys.argv.index\<close> finds the first occurrence, so
  the resolution takes \<open>/a\<close> without a usage error, and the second flag stays in the
  argument list.
\<close>

theorem repeated_flag_kept:
  "last (argv repeated_flag_example) = ''--em-config''
   \<and> locate_config repeated_flag_example
       = Inr (''/a'', repeated_flag_example\<lparr>argv := [''emcc'', ''--em-config'']\<rparr>)"
  by (simp add: repeated_flag_example_def example_process_def locate_config_def index_of_def
      del_at_def Let_def)

theorem source_locator_order_witness:
  "locate_config (example_process [''emcc'', ''--em-config'', ''/cfg'', ''a.c''] Map.empty Map.empty Map.empty [])
     = Inr (''/cfg'', (example_process [''emcc'', ''--em-config'', ''/cfg'', ''a.c''] Map.empty Map.empty Map.empty [])
              \<lparr>argv := [''emcc'', ''a.c'']\<rparr>)
   \<and> locate_config (example_process [''emcc'', ''--em-config''] Map.empty Map.empty Map.empty []) = Inl UsageError
   \<and> locate_config (example_process [''emcc'', ''a.c''] Map.empty [''/home/user/.emscripten'' \<mapsto> File []] Map.empty [])
     = Inr (''/home/user/.emscripten'',
            example_process [''emcc'', ''a.c''] Map.empty [''/home/user/.emscripten'' \<mapsto> File []] Map.empty [])
   \<and> locate_config (example_process [''emcc'', ''a.c''] Map.empty [''/emsdk/.emscripten'' \<mapsto> File []] Map.empty [])
     = Inr (''/emsdk/.emscripten'',
            example_process [''emcc'', ''a.c''] Map.empty [''/emsdk/.emscripten'' \<mapsto> File []] Map.empty [])"
proof (intro conjI)
  let ?p = "example_process [''emcc'', ''--em-config'', ''/cfg'', ''a.c''] Map.empty Map.empty Map.empty []"
  have "argv ?p = [''emcc''] @ ''--em-config'' # ''/cfg'' # [''a.c''] \<and> ''--em-config'' \<notin> set [''emcc'']"
    by (simp add: example_process_def)
  with source_locator_order [of ?p] have "locate_config ?p = Inr (''/cfg'', ?p\<lparr>argv := [''emcc''] @ [''a.c'']\<rparr>)"
    by blast
  then show "locate_config ?p = Inr (''/cfg'', ?p\<lparr>argv := [''emcc'', ''a.c'']\<rparr>)" by simp
next
  let ?p = "example_process [''emcc'', ''--em-config''] Map.empty Map.empty Map.empty []"
  have "argv ?p = [''emcc''] @ [''--em-config''] \<and> ''--em-config'' \<notin> set [''emcc'']"
    by (simp add: example_process_def)
  with source_locator_order [of ?p] show "locate_config ?p = Inl UsageError"
    by blast
next
  let ?p = "example_process [''emcc'', ''a.c''] Map.empty [''/home/user/.emscripten'' \<mapsto> File []] Map.empty []"
  have "''--em-config'' \<notin> set (argv ?p)"
    by (simp add: example_process_def)
  with source_locator_order [of ?p]
  have "locate_config ?p = Inr (first_candidate (candidates ?p) (user_home_config ?p), ?p)"
    by blast
  moreover have "first_candidate (candidates ?p) (user_home_config ?p) = ''/home/user/.emscripten''"
    by (simp add: example_process_def candidates_def user_home_config_def embedded_config_def
        emsdk_embedded_config_def emsdk_root_def path_exists_def path_join_def dirname_def rstrip_sep_def
        root_is_writable_def)
  ultimately show "locate_config ?p = Inr (''/home/user/.emscripten'', ?p)" by simp
next
  let ?p = "example_process [''emcc'', ''a.c''] Map.empty [''/emsdk/.emscripten'' \<mapsto> File []] Map.empty []"
  have na: "''--em-config'' \<notin> set (argv ?p)"
    by (simp add: example_process_def)
  have root: "path_from_root ?p [] = abs_path [''emsdk'', ''upstream'', ''emscripten'']
      \<and> (\<forall>c \<in> set [''emsdk'', ''upstream'', ''emscripten'']. component c)
      \<and> 2 \<le> length [''emsdk'', ''upstream'', ''emscripten'']"
    by (simp add: example_process_def abs_path_def component_def)
  note t = source_locator_order [of ?p]
  from t na have l: "locate_config ?p = Inr (first_candidate (candidates ?p) (user_home_config ?p), ?p)"
    by blast
  from t root have "emsdk_embedded_config ?p
      = abs_path (two_levels_above [''emsdk'', ''upstream'', ''emscripten''] @ [''.emscripten''])"
    by blast
  then have e: "emsdk_embedded_config ?p = ''/emsdk/.emscripten''"
    by (simp add: two_levels_above_def abs_path_def)
  have "first_candidate (candidates ?p) (user_home_config ?p) = ''/emsdk/.emscripten''"
    unfolding candidates_def e
    by (simp add: example_process_def user_home_config_def embedded_config_def
        path_exists_def path_join_def root_is_writable_def)
  with l show "locate_config ?p = Inr (''/emsdk/.emscripten'', ?p)" by simp
qed

section \<open>The generator\<close>

lemma py_replace_Nil: "old \<noteq> [] \<Longrightarrow> py_replace old new [] = []"
  by (simp add: py_replace.simps)

text \<open>
  C9.  When something exists at the target path, \<open>generate_config\<close> fails with a fatal
  error and leaves the files as they are; so does the module when \<open>--generate-config\<close>
  is given and the chosen path exists.  When \<open>--generate-config\<close> is given, nothing
  exists at the chosen path and the template can be read, the module writes the
  rendered configuration to the path and the process exits with status zero.
\<close>

theorem generator_refuses_or_writes:
  "(path_exists (fs p) path \<longrightarrow> generate_config p path = (Inl (ConfigExists path), fs p))
   \<and> (locate_config p = Inr (cfg, p1) \<and> CHR 0x0A \<notin> set cfg
        \<and> ''--generate-config'' \<in> set (argv p1) \<longrightarrow>
        (path_exists (fs p1) (expanduser p1 cfg) \<longrightarrow>
           load_module p = Inl (ConfigExists (expanduser p1 cfg)))
        \<and> (\<not> path_exists (fs p1) (expanduser p1 cfg)
             \<and> read_file (fs p1) (path_from_root p1 [''tools/config_template.py'']) = Inr template \<longrightarrow>
           load_module p =
             Inr (Exited 0 (p1\<lparr>fs := (fs p1)(expanduser p1 cfg \<mapsto> File (render_config p1 template))\<rparr>))))"
  by (auto simp: generate_config_def load_module_def ebind_def initial_globals_def alloc_def write_file_def Let_def)


theorem generator_refuses_or_writes_witness:
  "generate_config
     (example_process [''emcc'', ''--generate-config''] Map.empty
        [''/home/user/.emscripten'' \<mapsto> File ''NODE_JS = 1''] Map.empty [])
     ''/home/user/.emscripten''
     = (Inl (ConfigExists ''/home/user/.emscripten''), [''/home/user/.emscripten'' \<mapsto> File ''NODE_JS = 1''])
   \<and> load_module
     (example_process [''emcc'', ''--generate-config''] Map.empty
        [''/home/user/.emscripten'' \<mapsto> File ''NODE_JS = 1''] Map.empty [])
     = Inl (ConfigExists ''/home/user/.emscripten'')
   \<and> load_module
     (example_process [''emcc'', ''--generate-config''] [''EM_CONFIG'' \<mapsto> ''~/new'']
        [''/emsdk/upstream/emscripten/tools/config_template.py'' \<mapsto> File ''NODE_JS = 1''] Map.empty [])
     = Inr (Exited 0
        ((example_process [''emcc'', ''--generate-config''] [''EM_CONFIG'' \<mapsto> ''~/new'']
           [''/emsdk/upstream/emscripten/tools/config_template.py'' \<mapsto> File ''NODE_JS = 1''] Map.empty [])
         \<lparr>fs := [''/emsdk/upstream/emscripten/tools/config_template.py'' \<mapsto> File ''NODE_JS = 1'',
                 ''/home/user/new'' \<mapsto> File []]\<rparr>))"
proof (intro conjI)
  let ?old = "[''/home/user/.emscripten'' \<mapsto> File ''NODE_JS = 1'']"
  let ?p = "example_process [''emcc'', ''--generate-config''] Map.empty ?old Map.empty []"
  let ?c = "''/home/user/.emscripten''"
  note inst = generator_refuses_or_writes [of ?p ?c ?c ?p "[]"]
  have fsp: "fs ?p = ?old" and ex: "expanduser ?p ?c = ?c" and av: "argv ?p = [''emcc'', ''--generate-config'']"
    by (simp_all add: example_process_def)
  have pe: "path_exists (fs ?p) ?c"
    by (simp add: fsp path_exists_def)
  show "generate_config ?p ?c = (Inl (ConfigExists ?c), ?old)"
    using inst pe fsp by simp
  have loc: "locate_config ?p = Inr (?c, ?p)"
    by (simp add: locate_config_def example_process_def path_exists_def embedded_config_def
        emsdk_embedded_config_def emsdk_root_def user_home_config_def path_join_def dirname_def
        rstrip_sep_def)
  show "load_module ?p = Inl (ConfigExists ?c)"
    using inst pe loc ex av by simp
next
  let ?tpl = "[''/emsdk/upstream/emscripten/tools/config_template.py'' \<mapsto> File ''NODE_JS = 1'']"
  let ?p = "example_process [''emcc'', ''--generate-config''] [''EM_CONFIG'' \<mapsto> ''~/new''] ?tpl Map.empty []"
  note inst = generator_refuses_or_writes [of ?p "''/x''" "''~/new''" ?p "''NODE_JS = 1''"]
  have fsp: "fs ?p = ?tpl" and ex: "expanduser ?p ''~/new'' = ''/home/user/new''"
    and av: "argv ?p = [''emcc'', ''--generate-config'']"
    and pr: "path_from_root ?p [''tools/config_template.py''] = ''/emsdk/upstream/emscripten/tools/config_template.py''"
    by (simp_all add: example_process_def path_join_def)
  have loc: "locate_config ?p = Inr (''~/new'', ?p)"
    by (simp add: locate_config_def example_process_def)
  have r: "render_config ?p ''NODE_JS = 1'' = []"
    by (simp add: render_config_def splitlines_def is_linebreak_def py_replace_Nil)
  have pe: "\<not> path_exists (fs ?p) ''/home/user/new''"
    by (simp add: fsp path_exists_def)
  have rd: "read_file (fs ?p) ''/emsdk/upstream/emscripten/tools/config_template.py'' = Inr ''NODE_JS = 1''"
    by (simp add: fsp read_file_def)
  have "load_module ?p = Inr (Exited 0 (?p\<lparr>fs := (fs ?p)(''/home/user/new'' \<mapsto> File [])\<rparr>))"
    using inst loc r ex av pr pe rd by simp
  then show "load_module ?p = Inr (Exited 0 (?p\<lparr>fs := [''/emsdk/upstream/emscripten/tools/config_template.py'' \<mapsto> File ''NODE_JS = 1'',
                 ''/home/user/new'' \<mapsto> File []]\<rparr>))"
    by (simp add: fsp)
qed


section \<open>Normalization: what the steps leave alone\<close>

lemma ebind_Inr: "(ebind m f = Inr y) = (\<exists>x. m = Inr x \<and> f x = Inr y)"
  by (cases m) (simp_all add: ebind_def)

lemma h_at_alloc:
  "h_at (h @ [xs]) a = (if a < length h then h_at h a else if a = length h then xs else [])"
  by (simp add: h_at_def nth_append)

lemma h_at_prefix: "prefix h h' \<Longrightarrow> a < length h \<Longrightarrow> h_at h' a = h_at h a"
  by (auto simp: prefix_def h_at_def nth_append)

lemma h_at_update:
  "h_at (h[a := xs]) b = (if b = a \<and> a < length h then xs else h_at h b)"
  by (simp add: h_at_def)

lemma h_at_dead: "\<not> a < length h \<Longrightarrow> h_at h a = []"
  by (simp add: h_at_def)

lemma grows_refl: "grows h h"
  by (simp add: grows_def)

lemma grows_trans: "grows h h' \<Longrightarrow> grows h' h'' \<Longrightarrow> grows h h''"
  by (auto simp: grows_def)

lemma prefix_grows: "prefix h h' \<Longrightarrow> grows h h'"
  by (auto simp: grows_def prefix_def nth_append)

lemma grows_alloc: "grows h (h @ [xs])"
  by (simp add: prefix_grows)

lemma grows_live: "grows h h' \<Longrightarrow> live h v \<Longrightarrow> live h' v"
  by (cases v) (auto simp: grows_def live_def)

lemma grows_truthy_live: "grows h h' \<Longrightarrow> live h v \<Longrightarrow> truthy h' v = truthy h v"
  by (cases v) (auto simp: grows_def live_def truthy_def h_at_def)

lemma grows_truthy: "grows h h' \<Longrightarrow> truthy h v \<Longrightarrow> truthy h' v"
  by (cases v) (auto simp: grows_def truthy_def h_at_def split: if_splits)

lemma truthy_live: "truthy h v \<Longrightarrow> live h v"
  by (cases v) (auto simp: truthy_def live_def h_at_def split: if_splits)

lemma frame_gframe: "frame K s s' \<Longrightarrow> gframe K s s'"
  by (simp add: frame_def gframe_def prefix_grows)

lemma frame_trans: "frame K s s' \<Longrightarrow> frame K' s' s'' \<Longrightarrow> frame (K \<union> K') s s''"
  by (auto simp: frame_def)

lemma gframe_trans: "gframe K s s' \<Longrightarrow> gframe K' s' s'' \<Longrightarrow> gframe (K \<union> K') s s''"
  by (auto simp: gframe_def intro: grows_trans)

lemma frame_mono: "frame K s s' \<Longrightarrow> K \<subseteq> K' \<Longrightarrow> frame K' s s'"
  by (auto simp: frame_def)

lemma gframe_mono: "gframe K s s' \<Longrightarrow> K \<subseteq> K' \<Longrightarrow> gframe K' s s'"
  by (auto simp: gframe_def)

lemma listify_cases:
  "listify h x = (x, h) \<and> (x = PNone \<or> is_list x)
   \<or> listify h x = (PList (length h), h @ [[x]]) \<and> x \<noteq> PNone \<and> \<not> is_list x"
  by (simp add: listify_def alloc_def)

lemma listify_prefix: "listify h x = (y, h') \<Longrightarrow> prefix h h'"
  using listify_cases [of h x] by auto

lemma listify_shape: "listify h x = (y, h') \<Longrightarrow> y = PNone \<and> x = PNone \<or> is_list y"
  using listify_cases [of h x] by auto

lemma listify_all_prefix: "listify_all h xs = (ys, h') \<Longrightarrow> prefix h h'"
proof (induction xs arbitrary: h ys h')
  case Nil
  then show ?case by simp
next
  case (Cons x xs)
  obtain y h1 where l: "listify h x = (y, h1)" by (cases "listify h x")
  obtain zs h2 where r: "listify_all h1 xs = (zs, h2)" by (cases "listify_all h1 xs")
  from Cons.prems l r have "h' = h2" by simp
  moreover have "prefix h h1" using l by (rule listify_prefix)
  moreover have "prefix h1 h2" using r by (rule Cons.IH)
  ultimately show ?case by (auto intro: prefix_order.trans)
qed

lemma listify_all_length: "listify_all h xs = (ys, h') \<Longrightarrow> length ys = length xs"
proof (induction xs arbitrary: h ys h')
  case Nil
  then show ?case by simp
next
  case (Cons x xs)
  obtain y h1 where l: "listify h x = (y, h1)" by (cases "listify h x")
  obtain zs h2 where r: "listify_all h1 xs = (zs, h2)" by (cases "listify_all h1 xs")
  from Cons.prems l r have "ys = y # zs" by simp
  with Cons.IH [OF r] show ?case by simp
qed

lemma listify_all_shape:
  "listify_all h xs = (ys, h') \<Longrightarrow> \<forall>y \<in> set ys. y = PNone \<or> is_list y"
proof (induction xs arbitrary: h ys h')
  case Nil
  then show ?case by simp
next
  case (Cons x xs)
  obtain y h1 where l: "listify h x = (y, h1)" by (cases "listify h x")
  obtain zs h2 where r: "listify_all h1 xs = (zs, h2)" by (cases "listify_all h1 xs")
  from Cons.prems l r have "ys = y # zs" by simp
  with Cons.IH [OF r] listify_shape [OF l] show ?case by auto
qed

lemma replace_engine_length:
  "replace_engine n h old new xs = Inr ys \<Longrightarrow> length ys = length xs"
  by (induction xs arbitrary: ys) (auto simp: ebind_Inr split: option.splits)

lemma fix_js_engine_cases:
  assumes "fix_js_engine n old new (g, h) = Inr (r, g', h')"
  shows "(old = PNone \<and> r = PNone \<and> g' = g \<and> h' = h)
     \<or> (old \<noteq> PNone \<and> r = new \<and>
         (\<exists>xs ys. py_iter h (g JS_ENGINES) = Inr xs \<and> replace_engine n h old new xs = Inr ys
            \<and> g' = g(JS_ENGINES := PList (length h)) \<and> h' = h @ [ys]))"
  using assms by (auto simp: fix_js_engine_def ebind_Inr alloc_def split: if_splits)

lemma fix_js_engine_frame:
  "fix_js_engine n old new (g, h) = Inr (r, g', h') \<Longrightarrow> frame {JS_ENGINES} (g, h) (g', h')"
  by (drule fix_js_engine_cases) (auto simp: frame_def)

lemma fix_js_engine_result:
  "fix_js_engine n old new (g, h) = Inr (r, g', h') \<Longrightarrow> r = (if old = PNone then PNone else new)"
  by (drule fix_js_engine_cases) auto

lemma default_engines_frame:
  "default_engines s = Inr s' \<Longrightarrow> frame {JS_ENGINES, JS_ENGINE} s s'"
  by (cases s) (auto simp: default_engines_def frame_def alloc_def ebind_Inr Let_def split: if_splits)

lemma fix_key_frame:
  assumes "fix_key n key s = Inr s'"
  shows "frame {JS_ENGINES, key} s s'"
proof -
  obtain g h where s: "s = (g, h)" by (cases s)
  obtain new h1 where l: "listify h (g key) = (new, h1)" by (cases "listify h (g key)")
  from assms s l obtain r g2 h2 where
    f: "fix_js_engine n (g key) new (g, h1) = Inr (r, g2, h2)" and s': "s' = (g2(key := r), h2)"
    by (auto simp: fix_key_def ebind_Inr)
  from fix_js_engine_frame [OF f] listify_prefix [OF l] s s' show ?thesis
    by (auto simp: frame_def intro: prefix_order.trans)
qed

lemma listify_entries_frame:
  assumes "listify_entries key s = Inr s'"
  shows "frame {key} s s'"
proof -
  obtain g h where s: "s = (g, h)" by (cases s)
  from assms s obtain xs where it: "py_iter h (g key) = Inr xs"
    by (auto simp: listify_entries_def ebind_Inr)
  obtain ys h1 where l: "listify_all h xs = (ys, h1)" by (cases "listify_all h xs")
  from assms s it l have s': "s' = (g(key := PList (length h1)), h1 @ [ys])"
    by (simp add: listify_entries_def ebind_def alloc_def)
  from listify_all_prefix [OF l] s s' show ?thesis
    by (auto simp: frame_def prefix_def)
qed

lemma listify_key_frame: "frame {key} s (listify_key key s)"
proof -
  obtain g h where s: "s = (g, h)" by (cases s)
  obtain v h1 where l: "listify h (g key) = (v, h1)" by (cases "listify h (g key)")
  from listify_prefix [OF l] s l show ?thesis
    by (simp add: listify_key_def frame_def)
qed

lemma derive_cache_frame: "frame {CACHE} s (derive_cache p s)"
  by (cases s) (simp add: derive_cache_def frame_def)

lemma derive_ports_frame: "derive_ports s = Inr s' \<Longrightarrow> frame {PORTS} s s'"
  by (cases s) (auto simp: derive_ports_def frame_def split: if_splits pyval.splits)

lemma derive_version_frame: "frame {key} s (derive_version env key s)"
  by (cases s) (simp add: derive_version_def frame_def)

lemma iadd_flag_grows:
  "iadd_flag h v = Inr h' \<Longrightarrow> truthy h v \<Longrightarrow> grows h h'"
  by (cases v) (auto simp: iadd_flag_def grows_def nth_list_update h_at_def truthy_def split: if_splits)

lemma tweak_spidermonkey_gframe:
  assumes "tweak_spidermonkey n s = Inr s'"
  shows "gframe {JS_ENGINES, SPIDERMONKEY_ENGINE} s s'"
proof -
  obtain g h where s: "s = (g, h)" by (cases s)
  show ?thesis
  proof (cases "truthy h (g SPIDERMONKEY_ENGINE)")
    case False
    with assms s show ?thesis
      by (simp add: tweak_spidermonkey_def gframe_def grows_refl)
  next
    case True
    with assms s obtain str h1 r g2 h2 where
      h1: "(if \<not> is_substr ''-w'' str then iadd_flag h (g SPIDERMONKEY_ENGINE) else Inr h) = Inr h1"
      and f: "fix_js_engine n (g SPIDERMONKEY_ENGINE) (g SPIDERMONKEY_ENGINE) (g, h1) = Inr (r, g2, h2)"
      and s': "s' = (g2(SPIDERMONKEY_ENGINE := r), h2)"
      by (auto simp: tweak_spidermonkey_def ebind_Inr Let_def split: option.splits)
    from h1 True have "grows h h1"
      by (auto simp: grows_refl iadd_flag_grows split: if_splits)
    moreover from fix_js_engine_frame [OF f] have "grows h1 h2" and "\<forall>k. k \<noteq> JS_ENGINES \<longrightarrow> g2 k = g k"
      by (auto simp: frame_def prefix_grows)
    ultimately show ?thesis using s s'
      by (auto simp: gframe_def intro: grows_trans)
  qed
qed

lemma normalize_steps:
  assumes "normalize_config_settings p s0 = Inr s'"
  obtains s1 s2 s3 s4 s5 s6 s7 s8 where
    "default_engines s0 = Inr s1"
    "tweak_spidermonkey (recursion_limit p) s1 = Inr s2"
    "fix_key (recursion_limit p) NODE_JS s2 = Inr s3"
    "fix_key (recursion_limit p) V8_ENGINE s3 = Inr s4"
    "fix_key (recursion_limit p) JS_ENGINE s4 = Inr s5"
    "listify_entries JS_ENGINES s5 = Inr s6"
    "listify_entries WASM_ENGINES s6 = Inr s7"
    "derive_ports (derive_cache p (listify_key CLOSURE_COMPILER s7)) = Inr s8"
    "s' = derive_version (environ p) CLANG_ADD_VERSION (derive_version (environ p) LLVM_ADD_VERSION s8)"
  using assms unfolding normalize_config_settings_def ebind_Inr by blast

lemmas run_defs =
  parse_config_file_def normalize_config_settings_def default_engines_def
  tweak_spidermonkey_def fix_key_def fix_js_engine_def listify_entries_def listify_key_def
  derive_cache_def derive_ports_def derive_version_def listify_def iadd_flag_def
  py_iter_def py_first_def py_str_def truthy_def h_at_def alloc_def ebind_def getenv_def
  root_is_writable_def path_join_def scalar_eq_def read_file_def initial_globals_def
  merge_config_key precedence_chain_def MANDATORY_KEYS_def repr_str_def repr_char_def
  final_value_def final_items_def example_process_def

lemma engine_part_gframe:
  assumes "default_engines s0 = Inr s1"
    "tweak_spidermonkey n s1 = Inr s2"
    "fix_key n NODE_JS s2 = Inr s3"
    "fix_key n V8_ENGINE s3 = Inr s4"
    "fix_key n JS_ENGINE s4 = Inr s5"
    "listify_entries JS_ENGINES s5 = Inr s6"
    "listify_entries WASM_ENGINES s6 = Inr s7"
  shows "gframe engine_keys s0 (listify_key CLOSURE_COMPILER s7)"
proof -
  note f1 = frame_gframe [OF default_engines_frame [OF assms(1)]]
  note f2 = tweak_spidermonkey_gframe [OF assms(2)]
  note f3 = frame_gframe [OF fix_key_frame [OF assms(3)]]
  note f4 = frame_gframe [OF fix_key_frame [OF assms(4)]]
  note f5 = frame_gframe [OF fix_key_frame [OF assms(5)]]
  note f6 = frame_gframe [OF listify_entries_frame [OF assms(6)]]
  note f7 = frame_gframe [OF listify_entries_frame [OF assms(7)]]
  note f8 = frame_gframe [OF listify_key_frame [of CLOSURE_COMPILER s7]]
  note all = gframe_trans [OF gframe_trans [OF gframe_trans [OF gframe_trans [OF gframe_trans
        [OF gframe_trans [OF gframe_trans [OF f1 f2] f3] f4] f5] f6] f7] f8]
  show ?thesis
    by (rule gframe_mono [OF all]) (auto simp: engine_keys_def)
qed

lemma normalize_gframe:
  assumes "normalize_config_settings p s0 = Inr s'"
  shows "gframe (engine_keys \<union> {CACHE, PORTS, LLVM_ADD_VERSION, CLANG_ADD_VERSION}) s0 s'"
proof -
  from assms obtain s1 s2 s3 s4 s5 s6 s7 s8 where st:
    "default_engines s0 = Inr s1"
    "tweak_spidermonkey (recursion_limit p) s1 = Inr s2"
    "fix_key (recursion_limit p) NODE_JS s2 = Inr s3"
    "fix_key (recursion_limit p) V8_ENGINE s3 = Inr s4"
    "fix_key (recursion_limit p) JS_ENGINE s4 = Inr s5"
    "listify_entries JS_ENGINES s5 = Inr s6"
    "listify_entries WASM_ENGINES s6 = Inr s7"
    and p8: "derive_ports (derive_cache p (listify_key CLOSURE_COMPILER s7)) = Inr s8"
    and s': "s' = derive_version (environ p) CLANG_ADD_VERSION
               (derive_version (environ p) LLVM_ADD_VERSION s8)"
    by (rule normalize_steps)
  note e = engine_part_gframe [OF st]
  note c = frame_gframe [OF derive_cache_frame [of "listify_key CLOSURE_COMPILER s7" p]]
  note d = frame_gframe [OF derive_ports_frame [OF p8]]
  note v1 = frame_gframe [OF derive_version_frame [of LLVM_ADD_VERSION s8 "environ p"]]
  note v2 = frame_gframe [OF derive_version_frame
      [of CLANG_ADD_VERSION "derive_version (environ p) LLVM_ADD_VERSION s8" "environ p"]]
  note all = gframe_trans [OF gframe_trans [OF gframe_trans [OF gframe_trans [OF e c] d] v1] v2]
  show ?thesis
    unfolding s' by (rule gframe_mono [OF all]) auto
qed

text \<open>
  C7.  Let normalization succeed on a state in which \<open>CACHE\<close>, \<open>FROZEN_CACHE\<close> and \<open>PORTS\<close>
  hold live values.  When \<open>CACHE\<close> is unset (empty) on entry, it becomes the \<open>cache\<close>
  path under the toolchain root if \<open>FROZEN_CACHE\<close> is set or the root is writable, and
  else the path \<open>~/.emscripten_cache\<close> under the home directory; and when \<open>PORTS\<close> is
  unset it becomes the \<open>ports\<close> subdirectory of the resolved cache directory.
\<close>

theorem cache_and_ports_derived:
  assumes norm: "normalize_config_settings p (g, h) = Inr (g', h')"
    and lv: "live h (g CACHE)" "live h (g FROZEN_CACHE)" "live h (g PORTS)"
  shows "(\<not> truthy h (g CACHE) \<longrightarrow>
            g' CACHE = PStr (if truthy h (g FROZEN_CACHE) \<or> root_is_writable p
                             then path_from_root p [''cache'']
                             else expanduser p ''~/.emscripten_cache''))
       \<and> (\<not> truthy h (g PORTS) \<longrightarrow>
            (\<exists>c. g' CACHE = PStr c \<and> g' PORTS = PStr (path_join c ''ports'')))"
proof -
  from norm obtain s1 s2 s3 s4 s5 s6 s7 s8 where st:
    "default_engines (g, h) = Inr s1"
    "tweak_spidermonkey (recursion_limit p) s1 = Inr s2"
    "fix_key (recursion_limit p) NODE_JS s2 = Inr s3"
    "fix_key (recursion_limit p) V8_ENGINE s3 = Inr s4"
    "fix_key (recursion_limit p) JS_ENGINE s4 = Inr s5"
    "listify_entries JS_ENGINES s5 = Inr s6"
    "listify_entries WASM_ENGINES s6 = Inr s7"
    and p8: "derive_ports (derive_cache p (listify_key CLOSURE_COMPILER s7)) = Inr s8"
    and s': "(g', h') = derive_version (environ p) CLANG_ADD_VERSION
               (derive_version (environ p) LLVM_ADD_VERSION s8)"
    by (rule normalize_steps)
  obtain g7 h7 where s7: "listify_key CLOSURE_COMPILER s7 = (g7, h7)"
    by (cases "listify_key CLOSURE_COMPILER s7")
  from engine_part_gframe [OF st] s7
  have keep: "g7 CACHE = g CACHE" "g7 FROZEN_CACHE = g FROZEN_CACHE" "g7 PORTS = g PORTS"
    and gr: "grows h h7"
    by (simp_all add: gframe_def engine_keys_def)
  have t: "truthy h7 (g CACHE) = truthy h (g CACHE)"
    "truthy h7 (g FROZEN_CACHE) = truthy h (g FROZEN_CACHE)"
    "truthy h7 (g PORTS) = truthy h (g PORTS)"
    using gr lv by (simp_all add: grows_truthy_live)
  obtain g8 h8 where s8: "s8 = (g8, h8)" by (cases s8)
  have fin: "g' CACHE = g8 CACHE" "g' PORTS = g8 PORTS"
    using s' s8 by (auto simp: derive_version_def split: if_splits)
  have j: "path_join ''~'' ''.emscripten_cache'' = ''~/.emscripten_cache''"
    by (simp add: path_join_def)
  show ?thesis
    using p8 s7 s8 keep t fin
    by (auto simp: derive_cache_def derive_ports_def j split: if_splits pyval.splits)
qed

lemma ex_run:
  "\<exists>g' h'. normalize_config_settings
      (example_process [''emcc''] Map.empty Map.empty Map.empty [])
      ((\<lambda>k. PNone)(NODE_JS := PStr ''node'', WASM_ENGINES := PList 0), [[]]) = Inr (g', h')"
  by (simp add: run_defs)

theorem cache_and_ports_derived_witness:
  "final_value CACHE (normalize_config_settings
      (example_process [''emcc''] Map.empty Map.empty Map.empty [])
      ((\<lambda>k. PNone)(NODE_JS := PStr ''node'', WASM_ENGINES := PList 0), [[]]))
     = Inr (PStr ''/emsdk/upstream/emscripten/cache'')
   \<and> final_value PORTS (normalize_config_settings
      (example_process [''emcc''] Map.empty Map.empty Map.empty [])
      ((\<lambda>k. PNone)(NODE_JS := PStr ''node'', WASM_ENGINES := PList 0), [[]]))
     = Inr (PStr ''/emsdk/upstream/emscripten/cache/ports'')"
proof -
  let ?p = "example_process [''emcc''] Map.empty Map.empty Map.empty []"
  let ?g = "(\<lambda>k. PNone)(NODE_JS := PStr ''node'', WASM_ENGINES := PList 0)"
  from ex_run obtain g' h' where r: "normalize_config_settings ?p (?g, [[]]) = Inr (g', h')"
    by blast
  have "live [[]] (?g CACHE)" "live [[]] (?g FROZEN_CACHE)" "live [[]] (?g PORTS)"
    by (simp_all add: live_def)
  from cache_and_ports_derived [OF r this]
  have "g' CACHE = PStr ''/emsdk/upstream/emscripten/cache''
      \<and> g' PORTS = PStr ''/emsdk/upstream/emscripten/cache/ports''"
    by (auto simp: truthy_def root_is_writable_def example_process_def path_join_def)
  then show ?thesis
    by (simp add: r final_value_def)
qed

section \<open>The precedence chain\<close>







section \<open>The engines\<close>

lemma truthy_iter_nonempty: "truthy h v \<Longrightarrow> py_iter h v = Inr xs \<Longrightarrow> xs \<noteq> []"
  by (cases v) (auto simp: truthy_def py_iter_def)

lemma truthy_fresh: "xs \<noteq> [] \<Longrightarrow> truthy (h @ [xs]) (PList (length h))"
  by (simp add: truthy_def h_at_def)

lemma fix_js_engine_truthy:
  assumes "fix_js_engine n old new (g, h) = Inr (r, g', h')"
    and "truthy h (g JS_ENGINES)"
  shows "truthy h' (g' JS_ENGINES)"
proof -
  from fix_js_engine_cases [OF assms(1)] show ?thesis
  proof (elim disjE conjE exE)
    assume "g' = g" "h' = h"
    with assms(2) show ?thesis by simp
  next
    fix xs ys
    assume it: "py_iter h (g JS_ENGINES) = Inr xs"
      and re: "replace_engine n h old new xs = Inr ys"
      and g': "g' = g(JS_ENGINES := PList (length h))" and h': "h' = h @ [ys]"
    from truthy_iter_nonempty [OF assms(2) it] replace_engine_length [OF re]
    have "ys \<noteq> []" by auto
    with g' h' show ?thesis by (simp add: truthy_fresh)
  qed
qed

lemma default_engines_truthy:
  "default_engines (g, h) = Inr (g', h') \<Longrightarrow> truthy h' (g' JS_ENGINES)"
  by (auto simp: default_engines_def alloc_def ebind_Inr Let_def truthy_fresh split: if_splits)

lemma tweak_spidermonkey_truthy:
  assumes "tweak_spidermonkey n (g, h) = Inr (g', h')"
    and "truthy h (g JS_ENGINES)"
  shows "truthy h' (g' JS_ENGINES)"
proof (cases "truthy h (g SPIDERMONKEY_ENGINE)")
  case False
  with assms show ?thesis by (simp add: tweak_spidermonkey_def)
next
  case True
  with assms(1) obtain str h1 r g2 where
    h1: "(if \<not> is_substr ''-w'' str then iadd_flag h (g SPIDERMONKEY_ENGINE) else Inr h) = Inr h1"
    and f: "fix_js_engine n (g SPIDERMONKEY_ENGINE) (g SPIDERMONKEY_ENGINE) (g, h1) = Inr (r, g2, h')"
    and g': "g' = g2(SPIDERMONKEY_ENGINE := r)"
    by (auto simp: tweak_spidermonkey_def ebind_Inr Let_def split: option.splits)
  from h1 True have "grows h h1"
    by (auto simp: grows_refl iadd_flag_grows split: if_splits)
  then have "truthy h1 (g JS_ENGINES)"
    using assms(2) by (rule grows_truthy)
  from fix_js_engine_truthy [OF f this] g' show ?thesis by simp
qed

lemma fix_key_truthy:
  assumes "fix_key n key (g, h) = Inr (g', h')"
    and "key \<noteq> JS_ENGINES"
    and "truthy h (g JS_ENGINES)"
  shows "truthy h' (g' JS_ENGINES)"
proof -
  obtain new h1 where l: "listify h (g key) = (new, h1)" by (cases "listify h (g key)")
  from assms(1) l obtain r g2 where
    f: "fix_js_engine n (g key) new (g, h1) = Inr (r, g2, h')" and g': "g' = g2(key := r)"
    by (auto simp: fix_key_def ebind_Inr)
  have "truthy h1 (g JS_ENGINES)"
    using prefix_grows [OF listify_prefix [OF l]] assms(3) by (rule grows_truthy)
  from fix_js_engine_truthy [OF f this] g' assms(2) show ?thesis by simp
qed

lemma listify_entries_nonempty:
  assumes "listify_entries key (g, h) = Inr (g', h')"
    and "truthy h (g key)"
  shows "\<exists>l. g' key = PList l \<and> l < length h' \<and> h' ! l \<noteq> []"
proof -
  from assms(1) obtain xs where it: "py_iter h (g key) = Inr xs"
    by (auto simp: listify_entries_def ebind_Inr)
  obtain ys h1 where l: "listify_all h xs = (ys, h1)" by (cases "listify_all h xs")
  from assms(1) it l have s': "g' = g(key := PList (length h1))" "h' = h1 @ [ys]"
    by (simp_all add: listify_entries_def ebind_def alloc_def)
  from truthy_iter_nonempty [OF assms(2) it] listify_all_length [OF l] have "ys \<noteq> []" by auto
  with s' show ?thesis by simp
qed

lemma frame_keeps_list:
  assumes "frame K (g, h) (g', h')" and "key \<notin> K"
    and "g key = PList l" and "l < length h"
  shows "g' key = PList l \<and> l < length h' \<and> h' ! l = h ! l"
  using assms by (auto simp: frame_def prefix_def nth_append)

lemma tail_frame:
  assumes "listify_entries WASM_ENGINES s6 = Inr s7"
    and "derive_ports (derive_cache p (listify_key CLOSURE_COMPILER s7)) = Inr s8"
  shows "frame {WASM_ENGINES, CLOSURE_COMPILER, CACHE, PORTS, LLVM_ADD_VERSION, CLANG_ADD_VERSION}
     s6 (derive_version env CLANG_ADD_VERSION (derive_version env LLVM_ADD_VERSION s8))"
proof -
  note f7 = listify_entries_frame [OF assms(1)]
  note f8 = listify_key_frame [of CLOSURE_COMPILER s7]
  note c = derive_cache_frame [of "listify_key CLOSURE_COMPILER s7" p]
  note d = derive_ports_frame [OF assms(2)]
  note v1 = derive_version_frame [of LLVM_ADD_VERSION s8 env]
  note v2 = derive_version_frame [of CLANG_ADD_VERSION "derive_version env LLVM_ADD_VERSION s8" env]
  note all = frame_trans [OF frame_trans [OF frame_trans [OF frame_trans [OF frame_trans
        [OF f7 f8] c] d] v1] v2]
  show ?thesis
    by (rule frame_mono [OF all]) auto
qed

lemma engines_nonempty_aux:
  assumes norm: "normalize_config_settings p (g, h) = Inr (g', h')"
  shows "\<exists>l. g' JS_ENGINES = PList l \<and> h_at h' l \<noteq> []"
proof -
  from norm obtain s1 s2 s3 s4 s5 s6 s7 s8 where
    st: "default_engines (g, h) = Inr s1"
    "tweak_spidermonkey (recursion_limit p) s1 = Inr s2"
    "fix_key (recursion_limit p) NODE_JS s2 = Inr s3"
    "fix_key (recursion_limit p) V8_ENGINE s3 = Inr s4"
    "fix_key (recursion_limit p) JS_ENGINE s4 = Inr s5"
    "listify_entries JS_ENGINES s5 = Inr s6"
    and w: "listify_entries WASM_ENGINES s6 = Inr s7"
    and p8: "derive_ports (derive_cache p (listify_key CLOSURE_COMPILER s7)) = Inr s8"
    and s': "(g', h') = derive_version (environ p) CLANG_ADD_VERSION
               (derive_version (environ p) LLVM_ADD_VERSION s8)"
    by (rule normalize_steps)
  obtain g1 h1 where s1: "s1 = (g1, h1)" by (cases s1)
  obtain g2 h2 where s2: "s2 = (g2, h2)" by (cases s2)
  obtain g3 h3 where s3: "s3 = (g3, h3)" by (cases s3)
  obtain g4 h4 where s4: "s4 = (g4, h4)" by (cases s4)
  obtain g5 h5 where s5: "s5 = (g5, h5)" by (cases s5)
  obtain g6 h6 where s6: "s6 = (g6, h6)" by (cases s6)
  have t1: "truthy h1 (g1 JS_ENGINES)"
    using st(1) s1 by (simp add: default_engines_truthy)
  have t2: "truthy h2 (g2 JS_ENGINES)"
    using st(2) s1 s2 t1 by (auto intro: tweak_spidermonkey_truthy)
  have t3: "truthy h3 (g3 JS_ENGINES)"
    using st(3) s2 s3 t2 by (auto intro: fix_key_truthy)
  have t4: "truthy h4 (g4 JS_ENGINES)"
    using st(4) s3 s4 t3 by (auto intro: fix_key_truthy)
  have t5: "truthy h5 (g5 JS_ENGINES)"
    using st(5) s4 s5 t4 by (auto intro: fix_key_truthy)
  from st(6) s5 s6 t5 obtain l where
    l: "g6 JS_ENGINES = PList l" "l < length h6" "h6 ! l \<noteq> []"
    using listify_entries_nonempty [of JS_ENGINES g5 h5 g6 h6] by auto
  from tail_frame [OF w p8, of "environ p"] s' s6
  have "frame {WASM_ENGINES, CLOSURE_COMPILER, CACHE, PORTS, LLVM_ADD_VERSION, CLANG_ADD_VERSION}
     (g6, h6) (g', h')" by simp
  from frame_keeps_list [OF this _ l(1) l(2)] l(3)
  have "g' JS_ENGINES = PList l \<and> l < length h' \<and> h' ! l \<noteq> []" by simp
  then show ?thesis by (auto simp: h_at_def)
qed

lemma scalar_eq_str: "scalar_eq (PStr E) v = (v = PStr E)"
  by (cases v) (auto simp: scalar_eq_def)

lemma py_eq_str_left: "py_eq n h (PStr E) v = Some (v = PStr E)"
  by (cases v) (auto simp: scalar_eq_str)

lemma py_eq_list_scalar: "\<not> is_list v \<Longrightarrow> py_eq n h (PList b) v = Some False"
  by (cases v) (auto simp: scalar_eq_def)

lemma py_eq_items_single:
  "py_eq_items n h [PStr E] ys = Some True \<Longrightarrow> ys = [PStr E]"
proof (cases ys)
  case Nil
  then show "py_eq_items n h [PStr E] ys = Some True \<Longrightarrow> ys = [PStr E]" by simp
next
  case (Cons y zs)
  assume a: "py_eq_items n h [PStr E] ys = Some True"
  show "ys = [PStr E]"
  proof (cases zs)
    case Nil
    with a Cons show ?thesis
      by (auto simp: scalar_eq_str split: if_splits bool.splits)
  next
    case (Cons z zs')
    with a \<open>ys = y # zs\<close> show ?thesis
      by (auto simp: scalar_eq_str split: if_splits bool.splits)
  qed
qed

lemma py_eq_single_list:
  assumes "py_eq n h (PList b) (PList q) = Some True" and "h_at h b = [PStr E]"
  shows "h_at h q = [PStr E]"
proof (cases "b = q")
  case True
  with assms show ?thesis by simp
next
  case False
  with assms have "py_eq_items (n - 1) h [PStr E] (h_at h q) = Some True"
    by (auto split: if_splits)
  then show ?thesis by (rule py_eq_items_single)
qed

lemma replace_engine_single:
  assumes "replace_engine n h old new [x] = Inr ys"
  shows "ys = [x] \<and> py_eq n h x old = Some False \<or> ys = [new] \<and> py_eq n h x old = Some True"
  using assms by (auto simp: ebind_def split: option.splits)

lemma h_at_live: "a < length h \<Longrightarrow> h_at h a = h ! a"
  by (simp add: h_at_def)

lemma h_at_single_live: "h_at h a = [x] \<Longrightarrow> a < length h \<and> h ! a = [x]"
  by (auto simp: h_at_def split: if_splits)

lemma default_engines_raw:
  assumes "default_engines (g, h) = Inr (g', h')"
    and "\<not> truthy h (g JS_ENGINES)" and "\<not> truthy h (g JS_ENGINE)" and "g NODE_JS = PStr E"
    and "live h (g JS_ENGINE)"
  shows "raw_engine E (g', h') \<and> g' JS_ENGINE = PStr E \<and> g' NODE_JS = PStr E
     \<and> g' SPIDERMONKEY_ENGINE = g SPIDERMONKEY_ENGINE \<and> g' JS_ENGINES = PList (length h)
     \<and> length h < length h'"
  using assms
  by (auto simp: default_engines_def alloc_def ebind_Inr Let_def raw_engine_def py_first_def
      h_at_def truthy_def live_def nth_append split: if_splits pyval.splits)

lemma tweak_spidermonkey_raw:
  assumes tw: "tweak_spidermonkey n (g, h) = Inr (g', h')"
    and raw: "raw_engine E (g, h)"
    and ne: "g SPIDERMONKEY_ENGINE \<noteq> g JS_ENGINES"
  shows "raw_engine E (g', h')"
proof (cases "truthy h (g SPIDERMONKEY_ENGINE)")
  case False
  with tw raw show ?thesis by (simp add: tweak_spidermonkey_def)
next
  case True
  from raw obtain l where l: "g JS_ENGINES = PList l" "l < length h" "h ! l = [PStr E]"
    by (auto simp: raw_engine_def)
  from tw True obtain str h1 r g2 where
    h1: "(if \<not> is_substr ''-w'' str then iadd_flag h (g SPIDERMONKEY_ENGINE) else Inr h) = Inr h1"
    and f: "fix_js_engine n (g SPIDERMONKEY_ENGINE) (g SPIDERMONKEY_ENGINE) (g, h1) = Inr (r, g2, h')"
    and g': "g' = g2(SPIDERMONKEY_ENGINE := r)"
    by (auto simp: tweak_spidermonkey_def ebind_Inr Let_def split: option.splits)
  have l1: "l < length h1" "h1 ! l = [PStr E]"
    using h1 l ne by (auto simp: iadd_flag_def split: if_splits pyval.splits)
  from True have nn: "g SPIDERMONKEY_ENGINE \<noteq> PNone" by (auto simp: truthy_def)
  from fix_js_engine_cases [OF f] nn obtain xs ys where
    it: "py_iter h1 (g JS_ENGINES) = Inr xs"
    and re: "replace_engine n h1 (g SPIDERMONKEY_ENGINE) (g SPIDERMONKEY_ENGINE) xs = Inr ys"
    and g2: "g2 = g(JS_ENGINES := PList (length h1))" and h': "h' = h1 @ [ys]"
    by auto
  from it l l1 have xs: "xs = [PStr E]" by (simp add: py_iter_def h_at_def)
  from replace_engine_single [OF re [unfolded xs]] have "ys = [PStr E]"
    by (auto simp: scalar_eq_str)
  with g' g2 h' show ?thesis by (simp add: raw_engine_def)
qed

lemma fix_key_node_raw:
  assumes fk: "fix_key n NODE_JS (g, h) = Inr (g', h')"
    and raw: "raw_engine E (g, h)" and node: "g NODE_JS = PStr E"
  shows "one_engine E (g', h') \<and> (\<forall>k. k \<noteq> JS_ENGINES \<and> k \<noteq> NODE_JS \<longrightarrow> g' k = g k)"
proof -
  from raw obtain l where l: "g JS_ENGINES = PList l" "l < length h" "h ! l = [PStr E]"
    by (auto simp: raw_engine_def)
  let ?h1 = "h @ [[PStr E]]"
  from fk node obtain r g2 where
    f: "fix_js_engine n (PStr E) (PList (length h)) (g, ?h1) = Inr (r, g2, h')"
    and g': "g' = g2(NODE_JS := r)"
    by (auto simp: fix_key_def listify_def alloc_def ebind_Inr)
  from fix_js_engine_cases [OF f] obtain xs ys where
    it: "py_iter ?h1 (g JS_ENGINES) = Inr xs"
    and re: "replace_engine n ?h1 (PStr E) (PList (length h)) xs = Inr ys"
    and g2: "g2 = g(JS_ENGINES := PList (length ?h1))" and h': "h' = ?h1 @ [ys]"
    by auto
  from it l have xs: "xs = [PStr E]" by (simp add: py_iter_def h_at_def nth_append)
  from replace_engine_single [OF re [unfolded xs]] have "ys = [PList (length h)]"
    by (auto simp: scalar_eq_str)
  with g' g2 h' show ?thesis by (auto simp: one_engine_def nth_append)
qed

lemma fix_key_one_engine:
  assumes fk: "fix_key n key (g, h) = Inr (g', h')"
    and key: "key \<noteq> JS_ENGINES"
    and one: "one_engine E (g, h)"
  shows "one_engine E (g', h')"
proof -
  from one obtain l b where l: "g JS_ENGINES = PList l" "l < length h" "h ! l = [PList b]"
    and b: "b < length h" "h ! b = [PStr E]"
    by (auto simp: one_engine_def)
  obtain new h1 where li: "listify h (g key) = (new, h1)" by (cases "listify h (g key)")
  from fk li obtain r g2 where
    f: "fix_js_engine n (g key) new (g, h1) = Inr (r, g2, h')" and g': "g' = g2(key := r)"
    by (auto simp: fix_key_def ebind_Inr)
  have pre: "prefix h h1" using li by (rule listify_prefix)
  then have len: "length h \<le> length h1" by (auto simp: prefix_def)
  have l1: "h1 ! l = [PList b]" "h1 ! b = [PStr E]"
    using pre l b by (auto simp: prefix_def nth_append)
  from fix_js_engine_cases [OF f] show ?thesis
  proof (elim disjE conjE exE)
    assume "g2 = g" "h' = h1"
    with g' key l b l1 len show ?thesis by (auto simp: one_engine_def)
  next
    fix xs ys
    assume old: "g key \<noteq> PNone"
      and it: "py_iter h1 (g JS_ENGINES) = Inr xs"
      and re: "replace_engine n h1 (g key) new xs = Inr ys"
      and g2: "g2 = g(JS_ENGINES := PList (length h1))" and h': "h' = h1 @ [ys]"
    from it l l1 len have xs: "xs = [PList b]" by (simp add: py_iter_def h_at_def)
    from replace_engine_single [OF re [unfolded xs]]
    have "\<exists>b'. ys = [PList b'] \<and> b' < length h1 \<and> h1 ! b' = [PStr E]"
    proof (elim disjE conjE)
      assume "ys = [PList b]"
      with b l1 len show ?thesis by auto
    next
      assume ys: "ys = [new]" and eq: "py_eq n h1 (PList b) (g key) = Some True"
      from eq have il: "is_list (g key)"
        using py_eq_list_scalar [of "g key" n h1 b] by auto
      then obtain q where q: "g key = PList q" by (cases "g key") auto
      with li have new: "new = PList q" and hh: "h1 = h"
        by (auto simp: listify_def)
      from b hh have "h_at h1 b = [PStr E]" by (simp add: h_at_def)
      from py_eq_single_list [OF eq [unfolded q] this]
      have "h_at h1 q = [PStr E]" .
      then have "q < length h1 \<and> h1 ! q = [PStr E]" by (rule h_at_single_live)
      with ys new show ?thesis by auto
    qed
    then obtain b' where "ys = [PList b']" "b' < length h1" "h1 ! b' = [PStr E]" by blast
    with g' g2 h' key show ?thesis by (auto simp: one_engine_def nth_append)
  qed
qed

lemma fix_key_holds_command:
  assumes fk: "fix_key n key (g, h) = Inr (g', h')" and v: "g key = PStr E"
  shows "holds_command key E (g', h')"
proof -
  let ?h1 = "h @ [[PStr E]]"
  from fk v obtain r g2 where
    f: "fix_js_engine n (PStr E) (PList (length h)) (g, ?h1) = Inr (r, g2, h')"
    and g': "g' = g2(key := r)"
    by (auto simp: fix_key_def listify_def alloc_def ebind_Inr)
  from fix_js_engine_cases [OF f] obtain ys where
    "r = PList (length h)" "h' = ?h1 @ [ys]"
    by auto
  with g' show ?thesis by (auto simp: holds_command_def nth_append)
qed

lemma listify_all_lists:
  "\<forall>x \<in> set xs. is_list x \<Longrightarrow> listify_all h xs = (xs, h)"
  by (induction xs) (auto simp: listify_def split: prod.splits)

lemma listify_entries_one_engine:
  assumes le: "listify_entries JS_ENGINES (g, h) = Inr (g', h')"
    and one: "one_engine E (g, h)"
  shows "one_engine E (g', h') \<and> (\<forall>k. k \<noteq> JS_ENGINES \<longrightarrow> g' k = g k) \<and> prefix h h'"
proof -
  from one obtain l b where l: "g JS_ENGINES = PList l" "l < length h" "h ! l = [PList b]"
    and b: "b < length h" "h ! b = [PStr E]"
    by (auto simp: one_engine_def)
  have it: "py_iter h (g JS_ENGINES) = Inr [PList b]"
    using l by (simp add: py_iter_def h_at_def)
  have la: "listify_all h [PList b] = ([PList b], h)"
    by (rule listify_all_lists) simp
  from le it la have "g' = g(JS_ENGINES := PList (length h))" "h' = h @ [[PList b]]"
    by (simp_all add: listify_entries_def ebind_def alloc_def)
  with b show ?thesis by (auto simp: one_engine_def nth_append)
qed

lemma frame_one_engine:
  assumes "frame K s s'" and "JS_ENGINES \<notin> K" and "one_engine E s"
  shows "one_engine E s'"
  using assms by (auto simp: frame_def one_engine_def prefix_def nth_append)

lemma frame_holds_command:
  assumes "frame K s s'" and "key \<notin> K" and "holds_command key E s"
  shows "holds_command key E s'"
  using assms by (auto simp: frame_def holds_command_def prefix_def nth_append)

lemma primary_engine_aux:
  assumes norm: "normalize_config_settings p (g, h) = Inr (g', h')"
    and ne: "\<not> truthy h (g JS_ENGINES)" and nj: "\<not> truthy h (g JS_ENGINE)"
    and node: "g NODE_JS = PStr E" and lv: "live h (g SPIDERMONKEY_ENGINE)"
    and lj: "live h (g JS_ENGINE)"
  shows "one_engine E (g', h') \<and> holds_command JS_ENGINE E (g', h')"
proof -
  from norm obtain s1 s2 s3 s4 s5 s6 s7 s8 where
    st: "default_engines (g, h) = Inr s1"
    "tweak_spidermonkey (recursion_limit p) s1 = Inr s2"
    "fix_key (recursion_limit p) NODE_JS s2 = Inr s3"
    "fix_key (recursion_limit p) V8_ENGINE s3 = Inr s4"
    "fix_key (recursion_limit p) JS_ENGINE s4 = Inr s5"
    "listify_entries JS_ENGINES s5 = Inr s6"
    and w: "listify_entries WASM_ENGINES s6 = Inr s7"
    and p8: "derive_ports (derive_cache p (listify_key CLOSURE_COMPILER s7)) = Inr s8"
    and s': "(g', h') = derive_version (environ p) CLANG_ADD_VERSION
               (derive_version (environ p) LLVM_ADD_VERSION s8)"
    by (rule normalize_steps)
  obtain g1 h1 where s1: "s1 = (g1, h1)" by (cases s1)
  obtain g2 h2 where s2: "s2 = (g2, h2)" by (cases s2)
  obtain g3 h3 where s3: "s3 = (g3, h3)" by (cases s3)
  obtain g4 h4 where s4: "s4 = (g4, h4)" by (cases s4)
  obtain g5 h5 where s5: "s5 = (g5, h5)" by (cases s5)
  obtain g6 h6 where s6: "s6 = (g6, h6)" by (cases s6)
  from default_engines_raw [OF st(1) [unfolded s1] ne nj node lj]
  have r1: "raw_engine E (g1, h1)" and j1: "g1 JS_ENGINE = PStr E" and n1: "g1 NODE_JS = PStr E"
    and sm1: "g1 SPIDERMONKEY_ENGINE = g SPIDERMONKEY_ENGINE" and e1: "g1 JS_ENGINES = PList (length h)"
    by auto
  have ne1: "g1 SPIDERMONKEY_ENGINE \<noteq> g1 JS_ENGINES"
    using lv sm1 e1 by (auto simp: live_def)
  have r2: "raw_engine E (g2, h2)"
    using st(2) s1 s2 r1 ne1 by (auto intro: tweak_spidermonkey_raw)
  have k2: "g2 JS_ENGINE = PStr E" "g2 NODE_JS = PStr E"
    using tweak_spidermonkey_gframe [OF st(2)] s1 s2 j1 n1 by (auto simp: gframe_def)
  from fix_key_node_raw [OF st(3) [unfolded s2 s3] r2 k2(2)]
  have o3: "one_engine E (g3, h3)" and j3: "g3 JS_ENGINE = PStr E"
    using k2(1) by auto
  have o4: "one_engine E (g4, h4)"
    using st(4) s3 s4 o3 by (auto intro: fix_key_one_engine)
  have j4: "g4 JS_ENGINE = PStr E"
    using fix_key_frame [OF st(4)] s3 s4 j3 by (auto simp: frame_def)
  have o5: "one_engine E (g5, h5)"
    using st(5) s4 s5 o4 by (auto intro: fix_key_one_engine)
  have c5: "holds_command JS_ENGINE E (g5, h5)"
    using st(5) s4 s5 j4 by (auto intro: fix_key_holds_command)
  from listify_entries_one_engine [OF st(6) [unfolded s5 s6] o5]
  have o6: "one_engine E (g6, h6)" and f6: "frame {JS_ENGINES} (g5, h5) (g6, h6)"
    by (auto simp: frame_def)
  have c6: "holds_command JS_ENGINE E (g6, h6)"
    using f6 c5 by (auto intro: frame_holds_command)
  from tail_frame [OF w p8, of "environ p"] s' s6
  have fr: "frame {WASM_ENGINES, CLOSURE_COMPILER, CACHE, PORTS, LLVM_ADD_VERSION, CLANG_ADD_VERSION}
     (g6, h6) (g', h')" by simp
  show ?thesis
    using frame_one_engine [OF fr _ o6] frame_holds_command [OF fr _ c6] by simp
qed

text \<open>
  C3, as amended.  After a successful normalization \<open>JS_ENGINES\<close> is a list that is not
  empty.  When neither \<open>JS_ENGINES\<close> nor \<open>JS_ENGINE\<close> is supplied (both are empty on
  entry) and \<open>NODE_JS\<close> is the string \<open>E\<close>, normalization yields \<open>JS_ENGINES == [[E]]\<close>
  and \<open>JS_ENGINE == [E]\<close>.  (The references held by \<open>SPIDERMONKEY_ENGINE\<close> and
  \<open>JS_ENGINE\<close> are live, as every reference of a Python state is.)
\<close>

theorem engines_never_empty:
  assumes norm: "normalize_config_settings p (g, h) = Inr (g', h')"
  shows "(\<exists>l. g' JS_ENGINES = PList l \<and> h_at h' l \<noteq> [])
       \<and> (\<not> truthy h (g JS_ENGINES) \<and> \<not> truthy h (g JS_ENGINE) \<and> g NODE_JS = PStr E
            \<and> live h (g SPIDERMONKEY_ENGINE) \<and> live h (g JS_ENGINE) \<longrightarrow>
          (\<exists>l b c. g' JS_ENGINES = PList l \<and> h_at h' l = [PList b] \<and> h_at h' b = [PStr E]
             \<and> g' JS_ENGINE = PList c \<and> h_at h' c = [PStr E]))"
proof (intro conjI impI)
  show "\<exists>l. g' JS_ENGINES = PList l \<and> h_at h' l \<noteq> []"
    using norm by (rule engines_nonempty_aux)
next
  assume a: "\<not> truthy h (g JS_ENGINES) \<and> \<not> truthy h (g JS_ENGINE) \<and> g NODE_JS = PStr E
            \<and> live h (g SPIDERMONKEY_ENGINE) \<and> live h (g JS_ENGINE)"
  with primary_engine_aux [OF norm, of E]
  have "one_engine E (g', h')" "holds_command JS_ENGINE E (g', h')" by auto
  then show "\<exists>l b c. g' JS_ENGINES = PList l \<and> h_at h' l = [PList b] \<and> h_at h' b = [PStr E]
             \<and> g' JS_ENGINE = PList c \<and> h_at h' c = [PStr E]"
    by (auto simp: one_engine_def holds_command_def h_at_def)
qed

theorem engines_never_empty_witness:
  "\<exists>g' h' l b c.
     normalize_config_settings (example_process [''emcc''] Map.empty Map.empty Map.empty [])
       ((\<lambda>k. PNone)(NODE_JS := PStr ''node'', WASM_ENGINES := PList 0), [[]]) = Inr (g', h')
     \<and> g' JS_ENGINES = PList l \<and> h_at h' l = [PList b] \<and> h_at h' b = [PStr ''node'']
     \<and> g' JS_ENGINE = PList c \<and> h_at h' c = [PStr ''node'']"
proof -
  let ?p = "example_process [''emcc''] Map.empty Map.empty Map.empty []"
  let ?g = "(\<lambda>k. PNone)(NODE_JS := PStr ''node'', WASM_ENGINES := PList 0)"
  from ex_run obtain g' h' where r: "normalize_config_settings ?p (?g, [[]]) = Inr (g', h')"
    by blast
  have "\<not> truthy [[]] (?g JS_ENGINES) \<and> \<not> truthy [[]] (?g JS_ENGINE) \<and> ?g NODE_JS = PStr ''node''
      \<and> live [[]] (?g SPIDERMONKEY_ENGINE) \<and> live [[]] (?g JS_ENGINE)"
    by (simp add: truthy_def live_def)
  with engines_never_empty [OF r, of "''node''"] r show ?thesis
    by blast
qed

text \<open>
  C3 as stated fails: with \<open>NODE_JS = 'node'\<close>, no \<open>JS_ENGINES\<close> and an explicit
  \<open>JS_ENGINE = 'd8'\<close>, the resolution ends with \<open>JS_ENGINE == ['d8']\<close>, not \<open>['node']\<close>.
\<close>

theorem explicit_engine_kept:
  "final_value JS_ENGINES (Inr (merge_config (environ explicit_engine_example)
       (base_config(''JS_ENGINE'' \<mapsto> PStr ''d8'')) (fst (initial_globals [])), [[]])) = Inr PNone
   \<and> final_value NODE_JS (Inr (merge_config (environ explicit_engine_example)
       (base_config(''JS_ENGINE'' \<mapsto> PStr ''d8'')) (fst (initial_globals [])), [[]]))
       = Inr (PStr ''node'')
   \<and> final_items JS_ENGINE (parse_config_file explicit_engine_example ''/cfg'' (initial_globals []))
       = Inr [PStr ''d8'']"
  by (simp add: explicit_engine_example_def base_config_def run_defs Let_def)

section \<open>The Spidermonkey command\<close>

text \<open>
  C5 fails on the code: \<open>SPIDERMONKEY_ENGINE\<close> is never passed to \<open>listify\<close>.  With
  \<open>EM_SPIDERMONKEY_ENGINE\<close> set to \<open>js -w\<close> the resolution succeeds and
  \<open>SPIDERMONKEY_ENGINE\<close> is the bare string, not a list.
\<close>

theorem spidermonkey_string_stays:
  "final_value SPIDERMONKEY_ENGINE
     (parse_config_file spidermonkey_string_example ''/cfg'' (initial_globals []))
     = Inr (PStr ''js -w'')"
  by (simp add: spidermonkey_string_example_def base_config_def run_defs Let_def)

text \<open>
  C4 as stated fails: the command \<open>['/opt/js-wrapper/js']\<close> has no item \<open>-w\<close>, but its
  \<open>str\<close> has the substring \<open>-w\<close>, so the flag is not appended and the command is left
  without it.
\<close>

theorem substring_is_not_the_flag:
  "final_items SPIDERMONKEY_ENGINE
     (parse_config_file spidermonkey_substring_example ''/cfg'' (initial_globals []))
     = Inr [PStr ''/opt/js-wrapper/js'']"
  by (simp add: spidermonkey_substring_example_def base_config_def run_defs Let_def)

text \<open>
  An entry of \<open>JS_ENGINES\<close> that equals the unflagged command but is another object
  stays unflagged: \<open>+=\<close> has already extended the command in place when
  \<open>fix_js_engine\<close> compares the entries with it.
\<close>

lemma unflagged_copy_stays:
  "(case parse_config_file spidermonkey_copy_example ''/cfg'' (initial_globals []) of
      Inl e \<Rightarrow> False
    | Inr (g, h) \<Rightarrow>
        py_iter h (g SPIDERMONKEY_ENGINE) = Inr [PStr ''js'', PStr ''-w'']
        \<and> map (py_iter h) (h_at h (case g JS_ENGINES of PList l \<Rightarrow> l | _ \<Rightarrow> 0))
            = [Inr [PStr ''node''], Inr [PStr ''js'']])"
  by (simp add: spidermonkey_copy_example_def base_config_def run_defs Let_def)

text \<open>
  A Spidermonkey command given as a string without \<open>-w\<close>, as every override from the
  environment is, does not reach the end of normalization: \<open>+=\<close> with a list raises
  \<open>TypeError\<close> on a string.
\<close>

lemma unflagged_string_raises:
  "parse_config_file spidermonkey_unflagged_string_example ''/cfg'' (initial_globals []) = Inl TypeError"
  by (simp add: spidermonkey_unflagged_string_example_def base_config_def run_defs Let_def)

text \<open>
  When \<open>JS_ENGINES\<close> is the Spidermonkey list object itself, the flag appended in place
  is one more entry of \<open>JS_ENGINES\<close>: from \<open>['js']\<close> it becomes \<open>[['js'], ['-w']]\<close>.
\<close>

lemma aliased_engines_grow:
  "(case parse_config_file spidermonkey_alias_example ''/cfg'' (initial_globals []) of
      Inl e \<Rightarrow> False
    | Inr (g, h) \<Rightarrow>
        map (py_iter h) (h_at h (case g JS_ENGINES of PList l \<Rightarrow> l | _ \<Rightarrow> 0))
          = [Inr [PStr ''js''], Inr [PStr ''-w'']])"
  by (simp add: spidermonkey_alias_example_def base_config_def run_defs Let_def)

lemma h_at_append_live: "a < length h \<Longrightarrow> h_at (h @ hs) a = h_at h a"
  by (simp add: h_at_def nth_append)

lemma closed_items: "closed h \<Longrightarrow> a < length h \<Longrightarrow> \<forall>v \<in> set (h_at h a). live h v"
  by (auto simp: closed_def h_at_def)

lemma py_repr_append:
  "closed h \<Longrightarrow> live h v \<Longrightarrow> py_repr n (h @ hs) stk v = py_repr n h stk v"
  "closed h \<Longrightarrow> \<forall>v \<in> set xs. live h v \<Longrightarrow>
     py_repr_items n (h @ hs) stk xs = py_repr_items n h stk xs"
proof (induction n h stk v and n h stk xs rule: py_repr_py_repr_items.induct)
  case (5 n h stk a)
  from "5.prems" have a: "a < length h" by (simp add: live_def)
  then have eq: "h_at (h @ hs) a = h_at h a" by (rule h_at_append_live)
  show ?case
  proof (cases "h_at h a = [] \<or> a \<in> set stk \<or> n = 0")
    case True
    then show ?thesis using eq by auto
  next
    case False
    then have "py_repr_items (n - 1) (h @ hs) (a # stk) (h_at h a)
        = py_repr_items (n - 1) h (a # stk) (h_at h a)"
      using "5.IH" "5.prems"(1) closed_items [OF "5.prems"(1) a] by simp
    with False eq show ?thesis by simp
  qed
qed (simp_all split: option.splits)

lemma py_str_append:
  "closed h \<Longrightarrow> live h v \<Longrightarrow> py_str n (h @ hs) v = py_str n h v"
  by (cases v) (simp_all add: py_str_def py_repr_append(1) del: py_repr.simps)

lemma is_substr_sublist: "is_substr sub s = sublist sub s"
  by (induction s) (simp_all add: sublist_Cons_right)

lemma sublist_extend: "sublist xs ys \<Longrightarrow> sublist xs (ps @ ys @ ss)"
  by (rule sublist_order.order.trans [OF _ sublist_appendI])

lemma join_sublist: "r \<in> set rs \<Longrightarrow> sublist r (join sep rs)"
proof (induction sep rs rule: join.induct)
  case (1 sep)
  then show ?case by simp
next
  case (2 sep x)
  then show ?case by simp
next
  case (3 sep x y ys)
  show ?case
  proof (cases "r = x")
    case True
    then show ?thesis by (simp add: sublist_append_rightI)
  next
    case False
    with 3 have "sublist r (join sep (y # ys))" by simp
    then have "sublist r ((x @ sep) @ join sep (y # ys) @ [])"
      by (rule sublist_extend)
    then show ?thesis by simp
  qed
qed

lemma py_repr_items_member:
  "py_repr_items n h stk xs = Some rs \<Longrightarrow> x \<in> set xs \<Longrightarrow>
   \<exists>r. py_repr n h stk x = Some r \<and> r \<in> set rs"
  by (induction xs arbitrary: rs) (auto split: option.splits)

lemma flag_in_str:
  assumes "py_str n h (PList a) = Some s" and "PStr ''-w'' \<in> set (h_at h a)"
  shows "is_substr ''-w'' s"
proof -
  from assms(2) have ne: "h_at h a \<noteq> []" by auto
  with assms(1) obtain rs where
    rs: "py_repr_items (n - 1) h [a] (h_at h a) = Some rs" and s: "s = ''['' @ join '', '' rs @ '']''"
    by (auto simp: py_str_def split: if_splits option.splits)
  from py_repr_items_member [OF rs assms(2)]
  have "repr_str ''-w'' \<in> set rs" by simp
  then have "sublist (repr_str ''-w'') (join '', '' rs)" by (rule join_sublist)
  moreover have "sublist ''-w'' (repr_str ''-w'')"
    by (simp add: repr_str_def repr_char_def Let_def sublist_Cons_right)
  ultimately have "sublist ''-w'' (join '', '' rs)"
    by (rule sublist_order.order.trans [rotated])
  then have "sublist ''-w'' (''['' @ join '', '' rs @ '']'')"
    by (rule sublist_extend)
  with s show ?thesis by (simp add: is_substr_sublist)
qed

lemma default_engines_cases:
  assumes "default_engines (g, h) = Inr (g', h')"
  shows "g' SPIDERMONKEY_ENGINE = g SPIDERMONKEY_ENGINE
     \<and> (if truthy h (g JS_ENGINES) then g' JS_ENGINES = g JS_ENGINES \<and> h' = h
         else g' JS_ENGINES = PList (length h) \<and> h' = h @ [[g NODE_JS]])"
  using assms
  by (auto simp: default_engines_def alloc_def ebind_Inr Let_def split: if_splits)

lemma tweak_spidermonkey_flag:
  assumes tw: "tweak_spidermonkey n (g, h) = Inr (g', h')"
    and sm: "g SPIDERMONKEY_ENGINE = PList a" and a: "a < length h" and ne: "h ! a \<noteq> []"
    and str: "py_str n h (PList a) = Some s" and nf: "\<not> is_substr ''-w'' s"
  shows "g' SPIDERMONKEY_ENGINE = PList a \<and> a < length h' \<and> h' ! a = h ! a @ [PStr ''-w'']
     \<and> (\<exists>xs. py_iter (h[a := h ! a @ [PStr ''-w'']]) (g JS_ENGINES) = Inr xs
           \<and> engines_len (length xs) (g', h'))"
proof -
  let ?h1 = "h[a := h ! a @ [PStr ''-w'']]"
  have t: "truthy h (g SPIDERMONKEY_ENGINE)"
    using sm a ne by (simp add: truthy_def h_at_def)
  from tw t sm str nf obtain r g2 where
    f: "fix_js_engine n (PList a) (PList a) (g, ?h1) = Inr (r, g2, h')"
    and g': "g' = g2(SPIDERMONKEY_ENGINE := r)"
    using a by (auto simp: tweak_spidermonkey_def ebind_Inr Let_def iadd_flag_def h_at_def)
  from fix_js_engine_cases [OF f] obtain xs ys where
    r: "r = PList a"
    and it: "py_iter ?h1 (g JS_ENGINES) = Inr xs"
    and re: "replace_engine n ?h1 (PList a) (PList a) xs = Inr ys"
    and g2: "g2 = g(JS_ENGINES := PList (length ?h1))" and h': "h' = ?h1 @ [ys]"
    by auto
  from replace_engine_length [OF re] have len: "length ys = length xs" .
  have "engines_len (length xs) (g', h')"
    using g' g2 h' len by (simp add: engines_len_def nth_append)
  with r g' g2 h' a it show ?thesis
    by (auto simp: nth_append)
qed

lemma fix_key_engines_len:
  assumes fk: "fix_key n key (g, h) = Inr (g', h')"
    and key: "key \<noteq> JS_ENGINES"
    and el: "engines_len m (g, h)"
  shows "engines_len m (g', h')"
proof -
  from el obtain l where l: "g JS_ENGINES = PList l" "l < length h" "length (h ! l) = m"
    by (auto simp: engines_len_def)
  obtain new h1 where li: "listify h (g key) = (new, h1)" by (cases "listify h (g key)")
  from fk li obtain r g2 where
    f: "fix_js_engine n (g key) new (g, h1) = Inr (r, g2, h')" and g': "g' = g2(key := r)"
    by (auto simp: fix_key_def ebind_Inr)
  have pre: "prefix h h1" using li by (rule listify_prefix)
  then have l1: "l < length h1" "h1 ! l = h ! l"
    using l by (auto simp: prefix_def nth_append)
  from fix_js_engine_cases [OF f] show ?thesis
  proof (elim disjE conjE exE)
    assume "g2 = g" "h' = h1"
    with g' key l l1 show ?thesis by (auto simp: engines_len_def)
  next
    fix xs ys
    assume it: "py_iter h1 (g JS_ENGINES) = Inr xs"
      and re: "replace_engine n h1 (g key) new xs = Inr ys"
      and g2: "g2 = g(JS_ENGINES := PList (length h1))" and h': "h' = h1 @ [ys]"
    from it l l1 have "xs = h ! l" by (simp add: py_iter_def h_at_def)
    with replace_engine_length [OF re] l have "length ys = m" by simp
    with g' g2 h' key show ?thesis by (auto simp: engines_len_def)
  qed
qed

lemma listify_entries_engines_len:
  assumes le: "listify_entries JS_ENGINES (g, h) = Inr (g', h')"
    and el: "engines_len m (g, h)"
  shows "engines_len m (g', h')"
proof -
  from el obtain l where l: "g JS_ENGINES = PList l" "l < length h" "length (h ! l) = m"
    by (auto simp: engines_len_def)
  have it: "py_iter h (g JS_ENGINES) = Inr (h ! l)"
    using l by (simp add: py_iter_def h_at_def)
  obtain ys h1 where la: "listify_all h (h ! l) = (ys, h1)" by (cases "listify_all h (h ! l)")
  from le it la have "g' = g(JS_ENGINES := PList (length h1))" "h' = h1 @ [ys]"
    by (simp_all add: listify_entries_def ebind_def alloc_def)
  with listify_all_length [OF la] l show ?thesis by (simp add: engines_len_def)
qed

lemma frame_engines_len:
  assumes "frame K s s'" and "JS_ENGINES \<notin> K" and "engines_len m s"
  shows "engines_len m s'"
  using assms by (auto simp: frame_def engines_len_def prefix_def nth_append)

lemma after_tweak_frame:
  assumes "fix_key n NODE_JS s2 = Inr s3"
    "fix_key n V8_ENGINE s3 = Inr s4"
    "fix_key n JS_ENGINE s4 = Inr s5"
    "listify_entries JS_ENGINES s5 = Inr s6"
    "listify_entries WASM_ENGINES s6 = Inr s7"
    "derive_ports (derive_cache p (listify_key CLOSURE_COMPILER s7)) = Inr s8"
  shows "frame (- {SPIDERMONKEY_ENGINE}) s2
     (derive_version env CLANG_ADD_VERSION (derive_version env LLVM_ADD_VERSION s8))"
proof -
  note f3 = fix_key_frame [OF assms(1)]
  note f4 = fix_key_frame [OF assms(2)]
  note f5 = fix_key_frame [OF assms(3)]
  note f6 = listify_entries_frame [OF assms(4)]
  note t = tail_frame [OF assms(5) assms(6), of env]
  note all = frame_trans [OF frame_trans [OF frame_trans [OF frame_trans [OF f3 f4] f5] f6] t]
  show ?thesis
    by (rule frame_mono [OF all]) auto
qed

lemma py_eq_items_strings:
  "strings xs \<Longrightarrow> py_eq_items n h xs ys = Some True \<Longrightarrow> ys = xs"
proof (induction xs arbitrary: ys)
  case Nil
  then show ?case by (cases ys) simp_all
next
  case (Cons x xs)
  from Cons.prems(1) obtain s where x: "x = PStr s" and rest: "strings xs"
    by (auto simp: strings_def)
  show ?case
  proof (cases ys)
    case Nil
    with Cons.prems(2) show ?thesis by simp
  next
    case (Cons y zs)
    with Cons.prems(2) x have "y = PStr s" "py_eq_items n h xs zs = Some True"
      by (auto simp: scalar_eq_str split: bool.splits)
    with Cons.IH [OF rest] x Cons show ?thesis by simp
  qed
qed

lemma py_eq_strings_list:
  assumes "py_eq n h (PList b) (PList q) = Some True" and "strings (h_at h b)"
  shows "h_at h q = h_at h b"
proof (cases "b = q")
  case True
  then show ?thesis by simp
next
  case False
  with assms(1) have "py_eq_items (n - 1) h (h_at h b) (h_at h q) = Some True"
    by (auto split: if_splits)
  with assms(2) show ?thesis by (rule py_eq_items_strings)
qed

lemma replace_engine_nth:
  "replace_engine n h old new xs = Inr ys \<Longrightarrow> i < length xs \<Longrightarrow>
   ys ! i = (if py_eq n h (xs ! i) old = Some True then new else xs ! i)"
proof (induction xs arbitrary: ys i)
  case Nil
  then show ?case by simp
next
  case (Cons x xs)
  from Cons.prems(1) obtain b zs where
    b: "py_eq n h x old = Some b" and zs: "replace_engine n h old new xs = Inr zs"
    and ys: "ys = (if b then new else x) # zs"
    by (auto simp: ebind_Inr split: option.splits)
  show ?case
  proof (cases i)
    case 0
    with b ys show ?thesis by simp
  next
    case (Suc j)
    with Cons.prems(2) have "j < length xs" by simp
    from Cons.IH [OF zs this] Suc ys show ?thesis by simp
  qed
qed

lemma listify_all_nth:
  "listify_all h xs = (ys, h') \<Longrightarrow> i < length xs \<Longrightarrow> is_list (xs ! i) \<Longrightarrow> ys ! i = xs ! i"
proof (induction xs arbitrary: h ys h' i)
  case Nil
  then show ?case by simp
next
  case (Cons x xs)
  obtain y h1 where l: "listify h x = (y, h1)" by (cases "listify h x")
  obtain zs h2 where r: "listify_all h1 xs = (zs, h2)" by (cases "listify_all h1 xs")
  from Cons.prems(1) l r have ys: "ys = y # zs" by simp
  show ?case
  proof (cases i)
    case 0
    with Cons.prems(3) l ys show ?thesis by (auto simp: listify_def)
  next
    case (Suc j)
    with Cons.prems have "j < length xs" "is_list (xs ! j)" by simp_all
    from Cons.IH [OF r this] Suc ys show ?thesis by simp
  qed
qed

lemma tweak_spidermonkey_entry:
  assumes tw: "tweak_spidermonkey n (g, h) = Inr (g', h')"
    and sm: "g SPIDERMONKEY_ENGINE = PList a" and a: "a < length h" and ne: "h ! a \<noteq> []"
    and str: "py_str n h (PList a) = Some s" and nf: "\<not> is_substr ''-w'' s"
    and other: "g JS_ENGINES \<noteq> PList a"
    and it: "py_iter h (g JS_ENGINES) = Inr xs" and i: "i < length xs" and x: "xs ! i = PList a"
  shows "entry_holds i (h ! a @ [PStr ''-w'']) (g', h')"
proof -
  let ?h1 = "h[a := h ! a @ [PStr ''-w'']]"
  have t: "truthy h (g SPIDERMONKEY_ENGINE)"
    using sm a ne by (simp add: truthy_def h_at_def)
  from tw t sm str nf obtain r g2 where
    f: "fix_js_engine n (PList a) (PList a) (g, ?h1) = Inr (r, g2, h')"
    and g': "g' = g2(SPIDERMONKEY_ENGINE := r)"
    using a by (auto simp: tweak_spidermonkey_def ebind_Inr Let_def iadd_flag_def h_at_def)
  from fix_js_engine_cases [OF f] obtain xs' ys where
    it': "py_iter ?h1 (g JS_ENGINES) = Inr xs'"
    and re: "replace_engine n ?h1 (PList a) (PList a) xs' = Inr ys"
    and g2: "g2 = g(JS_ENGINES := PList (length ?h1))" and h': "h' = ?h1 @ [ys]"
    by auto
  have "xs' = xs"
    using it it' other by (cases "g JS_ENGINES") (auto simp: py_iter_def h_at_def)
  with re i x have yi: "ys ! i = PList a" and len: "i < length ys"
    using replace_engine_nth [OF re, of i] replace_engine_length [OF re] by simp_all
  show ?thesis
    using g' g2 h' yi len a by (simp add: entry_holds_def nth_append)
qed

lemma fix_key_entry:
  assumes fk: "fix_key n key (g, h) = Inr (g', h')"
    and key: "key \<noteq> JS_ENGINES"
    and F: "strings F" and ne: "F \<noteq> []"
    and e: "entry_holds i F (g, h)"
  shows "entry_holds i F (g', h')"
proof -
  from e obtain l b where l: "g JS_ENGINES = PList l" "l < length h" "i < length (h ! l)"
    and b: "h ! l ! i = PList b" "b < length h" "h ! b = F"
    by (auto simp: entry_holds_def)
  obtain new h1 where li: "listify h (g key) = (new, h1)" by (cases "listify h (g key)")
  from fk li obtain r g2 where
    f: "fix_js_engine n (g key) new (g, h1) = Inr (r, g2, h')" and g': "g' = g2(key := r)"
    by (auto simp: fix_key_def ebind_Inr)
  have pre: "prefix h h1" using li by (rule listify_prefix)
  then have len: "length h \<le> length h1" by (auto simp: prefix_def)
  have l1: "h1 ! l = h ! l" "h1 ! b = F"
    using pre l b by (auto simp: prefix_def nth_append)
  from fix_js_engine_cases [OF f] show ?thesis
  proof (elim disjE conjE exE)
    assume "g2 = g" "h' = h1"
    with g' key l b l1 len show ?thesis by (auto simp: entry_holds_def)
  next
    fix xs ys
    assume old: "g key \<noteq> PNone"
      and it: "py_iter h1 (g JS_ENGINES) = Inr xs"
      and re: "replace_engine n h1 (g key) new xs = Inr ys"
      and g2: "g2 = g(JS_ENGINES := PList (length h1))" and h': "h' = h1 @ [ys]"
    from it l l1 len have xs: "xs = h ! l" by (simp add: py_iter_def h_at_def)
    from replace_engine_length [OF re] xs l have iy: "i < length ys" by simp
    from replace_engine_nth [OF re, of i] xs l b
    have yi: "ys ! i = (if py_eq n h1 (PList b) (g key) = Some True then new else PList b)"
      by simp
    have "\<exists>b'. ys ! i = PList b' \<and> b' < length h1 \<and> h1 ! b' = F"
    proof (cases "py_eq n h1 (PList b) (g key) = Some True")
      case False
      with yi b l1 len show ?thesis by auto
    next
      case True
      then have il: "is_list (g key)"
        using py_eq_list_scalar [of "g key" n h1 b] by auto
      then obtain q where q: "g key = PList q" by (cases "g key") auto
      with li have new: "new = PList q" and hh: "h1 = h"
        by (auto simp: listify_def)
      from b hh F have "strings (h_at h1 b)" "h_at h1 b = F" by (simp_all add: h_at_def)
      with py_eq_strings_list [OF True [unfolded q]] have hq: "h_at h1 q = F" by simp
      with ne have "q < length h1" by (auto simp: h_at_def split: if_splits)
      with hq yi True new show ?thesis
        by (auto simp: h_at_def)
    qed
    then obtain b' where "ys ! i = PList b'" "b' < length h1" "h1 ! b' = F" by blast
    with g' g2 h' key iy show ?thesis by (auto simp: entry_holds_def nth_append)
  qed
qed


lemma listify_entries_entry:
  assumes le: "listify_entries JS_ENGINES (g, h) = Inr (g', h')"
    and e: "entry_holds i F (g, h)"
  shows "entry_holds i F (g', h')"
proof -
  from e obtain l b where l: "g JS_ENGINES = PList l" "l < length h" "i < length (h ! l)"
    and b: "h ! l ! i = PList b" "b < length h" "h ! b = F"
    by (auto simp: entry_holds_def)
  have it: "py_iter h (g JS_ENGINES) = Inr (h ! l)"
    using l by (simp add: py_iter_def h_at_def)
  obtain ys h1 where la: "listify_all h (h ! l) = (ys, h1)" by (cases "listify_all h (h ! l)")
  from le it la have s': "g' = g(JS_ENGINES := PList (length h1))" "h' = h1 @ [ys]"
    by (simp_all add: listify_entries_def ebind_def alloc_def)
  from listify_all_prefix [OF la] b have b1: "b < length h1" "h1 ! b = F"
    by (auto simp: prefix_def nth_append)
  from listify_all_nth [OF la l(3)] b have yi: "ys ! i = PList b" by simp
  from listify_all_length [OF la] l have iy: "i < length ys" by simp
  from s' b1 yi iy show ?thesis by (simp add: entry_holds_def nth_append)
qed

lemma frame_entry:
  assumes "frame K s s'" and "JS_ENGINES \<notin> K" and "entry_holds i F s"
  shows "entry_holds i F s'"
  using assms by (auto simp: frame_def entry_holds_def prefix_def nth_append)

text \<open>
  C4, as amended.  Let \<open>SPIDERMONKEY_ENGINE\<close> be a non-empty list whose \<open>str\<close> does not
  have the substring \<open>-w\<close>, in a closed store, let \<open>JS_ENGINES\<close> not be that same list
  object, and let normalization succeed.  Then \<open>SPIDERMONKEY_ENGINE\<close> is still that list
  object, its items are the former ones followed by \<open>-w\<close>, so it holds \<open>-w\<close> exactly
  once; \<open>JS_ENGINES\<close> is a list as long as the engines list was on entry, or of length
  one when there was none; and, the command being a list of strings, every entry of
  the engines list that was the Spidermonkey list object is, at the same index of the
  final \<open>JS_ENGINES\<close>, a list holding the flagged command.
\<close>

theorem spidermonkey_flag_appended:
  assumes norm: "normalize_config_settings p (g, h) = Inr (g', h')"
    and sm: "g SPIDERMONKEY_ENGINE = PList a" and ne: "h_at h a \<noteq> []"
    and cl: "closed h"
    and str: "py_str (recursion_limit p) h (PList a) = Some s" and nf: "\<not> is_substr ''-w'' s"
    and other: "g JS_ENGINES \<noteq> PList a"
  shows "g' SPIDERMONKEY_ENGINE = PList a
       \<and> h_at h' a = h_at h a @ [PStr ''-w'']
       \<and> count_list (h_at h' a) (PStr ''-w'') = 1
       \<and> (\<exists>l. g' JS_ENGINES = PList l
            \<and> (\<forall>xs. truthy h (g JS_ENGINES) \<and> py_iter h (g JS_ENGINES) = Inr xs \<longrightarrow>
                 length (h_at h' l) = length xs)
            \<and> (\<not> truthy h (g JS_ENGINES) \<longrightarrow> length (h_at h' l) = 1)
            \<and> (\<forall>xs i. strings (h_at h a) \<and> py_iter h (g JS_ENGINES) = Inr xs
                   \<and> i < length xs \<and> xs ! i = PList a \<longrightarrow>
                 (\<exists>b. h_at h' l ! i = PList b \<and> h_at h' b = h_at h a @ [PStr ''-w''])))"
proof -
  let ?n = "recursion_limit p"
  let ?F = "h ! a @ [PStr ''-w'']"
  from norm obtain s1 s2 s3 s4 s5 s6 s7 s8 where
    st1: "default_engines (g, h) = Inr s1"
    and st2: "tweak_spidermonkey ?n s1 = Inr s2"
    and rest: "fix_key ?n NODE_JS s2 = Inr s3"
    "fix_key ?n V8_ENGINE s3 = Inr s4"
    "fix_key ?n JS_ENGINE s4 = Inr s5"
    "listify_entries JS_ENGINES s5 = Inr s6"
    "listify_entries WASM_ENGINES s6 = Inr s7"
    "derive_ports (derive_cache p (listify_key CLOSURE_COMPILER s7)) = Inr s8"
    and s': "(g', h') = derive_version (environ p) CLANG_ADD_VERSION
               (derive_version (environ p) LLVM_ADD_VERSION s8)"
    by (rule normalize_steps)
  obtain g1 h1 where s1: "s1 = (g1, h1)" by (cases s1)
  obtain g2 h2 where s2: "s2 = (g2, h2)" by (cases s2)
  obtain g3 h3 where s3: "s3 = (g3, h3)" by (cases s3)
  obtain g4 h4 where s4: "s4 = (g4, h4)" by (cases s4)
  obtain g5 h5 where s5: "s5 = (g5, h5)" by (cases s5)
  obtain g6 h6 where s6: "s6 = (g6, h6)" by (cases s6)
  from ne have a: "a < length h" and ne': "h ! a \<noteq> []"
    by (auto simp: h_at_def split: if_splits)
  have lv: "live h (PList a)" using a by (simp add: live_def)
  note d = default_engines_cases [OF st1 [unfolded s1]]
  from d obtain hs where hs: "h1 = h @ hs" by (auto split: if_splits)
  have sm1: "g1 SPIDERMONKEY_ENGINE = PList a" using d sm by simp
  have a1: "a < length h1" "h1 ! a = h ! a" using hs a by (simp_all add: nth_append)
  have str1: "py_str ?n h1 (PList a) = Some s"
    using py_str_append [OF cl lv, of ?n hs] str hs by simp
  from tweak_spidermonkey_flag [OF st2 [unfolded s1 s2] sm1 a1(1) _ str1 nf] a1(2) ne'
  obtain xs where
    sm2: "g2 SPIDERMONKEY_ENGINE = PList a" and a2: "a < length h2"
    and c2: "h2 ! a = h ! a @ [PStr ''-w'']"
    and it: "py_iter (h1[a := h ! a @ [PStr ''-w'']]) (g1 JS_ENGINES) = Inr xs"
    and e2: "engines_len (length xs) (g2, h2)"
    by auto
  have e3: "engines_len (length xs) (g3, h3)"
    using rest(1) s2 s3 e2 by (auto intro: fix_key_engines_len)
  have e4: "engines_len (length xs) (g4, h4)"
    using rest(2) s3 s4 e3 by (auto intro: fix_key_engines_len)
  have e5: "engines_len (length xs) (g5, h5)"
    using rest(3) s4 s5 e4 by (auto intro: fix_key_engines_len)
  have e6: "engines_len (length xs) (g6, h6)"
    using rest(4) s5 s6 e5 by (auto intro: listify_entries_engines_len)
  from tail_frame [OF rest(5) rest(6), of "environ p"] s' s6
  have fr6: "frame {WASM_ENGINES, CLOSURE_COMPILER, CACHE, PORTS, LLVM_ADD_VERSION, CLANG_ADD_VERSION}
     (g6, h6) (g', h')" by simp
  have e': "engines_len (length xs) (g', h')"
    using frame_engines_len [OF fr6 _ e6] by simp
  from after_tweak_frame [OF rest, of "environ p"] s' s2
  have fr2: "frame (- {SPIDERMONKEY_ENGINE}) (g2, h2) (g', h')" by simp
  from frame_keeps_list [OF fr2 _ sm2 a2] c2
  have fin: "g' SPIDERMONKEY_ENGINE = PList a" "a < length h'" "h' ! a = h ! a @ [PStr ''-w'']"
    by simp_all
  have once: "PStr ''-w'' \<notin> set (h_at h a)"
    using flag_in_str [OF str] nf by blast
  have hh: "h_at h' a = h_at h a @ [PStr ''-w'']"
    using fin a by (simp add: h_at_def)
  have cnt: "count_list (h_at h' a) (PStr ''-w'') = 1"
    using once by (simp add: hh count_list_0_iff)
  from e' obtain l where l: "g' JS_ENGINES = PList l" "l < length h'" "length (h' ! l) = length xs"
    by (auto simp: engines_len_def)
  have len1: "\<forall>ys. truthy h (g JS_ENGINES) \<and> py_iter h (g JS_ENGINES) = Inr ys \<longrightarrow>
      length (h_at h' l) = length ys"
  proof (intro allI impI)
    fix ys assume t: "truthy h (g JS_ENGINES) \<and> py_iter h (g JS_ENGINES) = Inr ys"
    with d have "g1 JS_ENGINES = g JS_ENGINES" "h1 = h" by simp_all
    with it other t have "xs = ys"
      by (cases "g JS_ENGINES") (auto simp: py_iter_def h_at_def)
    with l show "length (h_at h' l) = length ys" by (simp add: h_at_def)
  qed
  have len2: "\<not> truthy h (g JS_ENGINES) \<longrightarrow> length (h_at h' l) = 1"
  proof
    assume "\<not> truthy h (g JS_ENGINES)"
    with d have "g1 JS_ENGINES = PList (length h)" "h1 = h @ [[g NODE_JS]]" by simp_all
    with it a have "xs = [g NODE_JS]"
      by (simp add: py_iter_def h_at_def nth_append)
    with l show "length (h_at h' l) = 1" by (simp add: h_at_def)
  qed
  have repl: "\<forall>ys i. strings (h_at h a) \<and> py_iter h (g JS_ENGINES) = Inr ys
                   \<and> i < length ys \<and> ys ! i = PList a \<longrightarrow>
                 (\<exists>b. h_at h' l ! i = PList b \<and> h_at h' b = h_at h a @ [PStr ''-w''])"
  proof (intro allI impI)
    fix ys i
    assume asm: "strings (h_at h a) \<and> py_iter h (g JS_ENGINES) = Inr ys
                   \<and> i < length ys \<and> ys ! i = PList a"
    then have sF: "strings ?F" and nF: "?F \<noteq> []"
      using a by (simp_all add: strings_def h_at_def)
    from asm have t: "truthy h (g JS_ENGINES)"
      by (cases "g JS_ENGINES") (auto simp: py_iter_def truthy_def)
    with d have same: "g1 JS_ENGINES = g JS_ENGINES" "h1 = h" by simp_all
    have en2: "entry_holds i ?F (g2, h2)"
      using tweak_spidermonkey_entry [OF st2 [unfolded s1 s2] sm1 a1(1) _ str1 nf, of ys i]
        a1(2) ne' same other asm by simp
    have en3: "entry_holds i ?F (g3, h3)"
      using fix_key_entry [OF rest(1) [unfolded s2 s3] _ sF nF en2] by simp
    have en4: "entry_holds i ?F (g4, h4)"
      using fix_key_entry [OF rest(2) [unfolded s3 s4] _ sF nF en3] by simp
    have en5: "entry_holds i ?F (g5, h5)"
      using fix_key_entry [OF rest(3) [unfolded s4 s5] _ sF nF en4] by simp
    have en6: "entry_holds i ?F (g6, h6)"
      using listify_entries_entry [OF rest(4) [unfolded s5 s6] en5] .
    have "entry_holds i ?F (g', h')"
      using frame_entry [OF fr6 _ en6] by simp
    with l(1) a show "\<exists>b. h_at h' l ! i = PList b \<and> h_at h' b = h_at h a @ [PStr ''-w'']"
      by (auto simp: entry_holds_def h_at_def)
  qed
  from fin(1) hh cnt l(1) len1 len2 repl show ?thesis by blast
qed

lemma spidermonkey_state_runs:
  "\<exists>g' h'. normalize_config_settings (example_process [''emcc''] Map.empty Map.empty Map.empty [])
      spidermonkey_state = Inr (g', h')"
  by (simp add: spidermonkey_state_def run_defs Let_def)

theorem spidermonkey_flag_appended_witness:
  "\<exists>g' h' l b.
     normalize_config_settings (example_process [''emcc''] Map.empty Map.empty Map.empty [])
       spidermonkey_state = Inr (g', h')
     \<and> g' SPIDERMONKEY_ENGINE = PList 1
     \<and> h_at h' 1 = [PStr ''js'', PStr ''-w'']
     \<and> count_list (h_at h' 1) (PStr ''-w'') = 1
     \<and> g' JS_ENGINES = PList l \<and> length (h_at h' l) = 2
     \<and> h_at h' l ! 1 = PList b \<and> h_at h' b = [PStr ''js'', PStr ''-w'']"
proof -
  let ?p = "example_process [''emcc''] Map.empty Map.empty Map.empty []"
  let ?g = "(\<lambda>k. PNone)(NODE_JS := PStr ''node'', SPIDERMONKEY_ENGINE := PList 1,
        JS_ENGINES := PList 2, WASM_ENGINES := PList 0)"
  let ?h = "[[], [PStr ''js''], [PStr ''node'', PList 1]]"
  from spidermonkey_state_runs obtain g' h' where
    r: "normalize_config_settings ?p (?g, ?h) = Inr (g', h')"
    by (auto simp: spidermonkey_state_def)
  have sm: "?g SPIDERMONKEY_ENGINE = PList 1" by simp
  have ne: "h_at ?h 1 \<noteq> []" by (simp add: h_at_def)
  have cl: "closed ?h" by (simp add: closed_def live_def)
  have str: "py_str (recursion_limit ?p) ?h (PList 1) = Some (''['' @ repr_str ''js'' @ '']'')"
    by (simp add: example_process_def py_str_def h_at_def)
  have nf: "\<not> is_substr ''-w'' (''['' @ repr_str ''js'' @ '']'')"
    by (simp add: repr_str_def repr_char_def Let_def)
  have other: "?g JS_ENGINES \<noteq> PList 1" by simp
  have it: "truthy ?h (?g JS_ENGINES) \<and> py_iter ?h (?g JS_ENGINES) = Inr [PStr ''node'', PList 1]"
    by (simp add: truthy_def py_iter_def h_at_def)
  have en: "strings (h_at ?h 1) \<and> py_iter ?h (?g JS_ENGINES) = Inr [PStr ''node'', PList 1]
      \<and> (1::nat) < length [PStr ''node'', PList 1] \<and> [PStr ''node'', PList 1] ! 1 = PList 1"
    by (simp add: strings_def py_iter_def h_at_def)
  note t = spidermonkey_flag_appended [OF r sm ne cl str nf other]
  from t have a: "g' SPIDERMONKEY_ENGINE = PList 1" by (rule conjunct1)
  from t have b: "h_at h' 1 = h_at ?h 1 @ [PStr ''-w'']" by blast
  from t have c: "count_list (h_at h' 1) (PStr ''-w'') = 1" by blast
  from t obtain l where l: "g' JS_ENGINES = PList l"
    and len: "\<forall>xs. truthy ?h (?g JS_ENGINES) \<and> py_iter ?h (?g JS_ENGINES) = Inr xs \<longrightarrow>
         length (h_at h' l) = length xs"
    and rep: "\<forall>xs i. strings (h_at ?h 1) \<and> py_iter ?h (?g JS_ENGINES) = Inr xs
                   \<and> i < length xs \<and> xs ! i = PList 1 \<longrightarrow>
                 (\<exists>b. h_at h' l ! i = PList b \<and> h_at h' b = h_at ?h 1 @ [PStr ''-w''])"
    by blast
  from len it have d: "length (h_at h' l) = length [PStr ''node'', PList 1]" by blast
  from rep en obtain b' where b': "h_at h' l ! 1 = PList b'" "h_at h' b' = h_at ?h 1 @ [PStr ''-w'']"
    by blast
  have e: "h_at ?h 1 = [PStr ''js'']" by (simp add: h_at_def)
  have "normalize_config_settings ?p spidermonkey_state = Inr (g', h')"
    using r by (simp add: spidermonkey_state_def)
  with a b c l d e b' show ?thesis by simp
qed

section \<open>Resolution as a function of its inputs\<close>

lemma normalize_cong:
  assumes "recursion_limit q = recursion_limit p" "environ q = environ p"
    "root_writable q = root_writable p" "path_from_root q = path_from_root p"
    "expanduser q = expanduser p"
  shows "normalize_config_settings q s = normalize_config_settings p s"
proof -
  have "derive_cache q = derive_cache p"
    using assms by (auto simp: derive_cache_def root_is_writable_def fun_eq_iff)
  with assms show ?thesis
    by (simp add: normalize_config_settings_def)
qed

lemma parse_config_file_cong:
  assumes "recursion_limit q = recursion_limit p" "environ q = environ p"
    "root_writable q = root_writable p" "path_from_root q = path_from_root p"
    "expanduser q = expanduser p" "py_exec q = py_exec p" "fs q path = fs p path"
  shows "parse_config_file q path s = parse_config_file p path s"
proof -
  have rf: "read_file (fs q) path = read_file (fs p) path"
    using assms(7) by (simp add: read_file_def)
  have nm: "\<And>s. normalize_config_settings q s = normalize_config_settings p s"
    using assms(1-5) by (rule normalize_cong)
  show ?thesis
    unfolding parse_config_file_def rf nm assms(2) assms(6) ..
qed

lemma locate_config_cong:
  assumes si: "same_inputs p q"
    and fs: "\<forall>path \<in> {embedded_config p, emsdk_embedded_config p, user_home_config p}.
        fs q path = fs p path"
  shows "(case locate_config q of Inl e \<Rightarrow> Inl e | Inr (c, q1) \<Rightarrow> Inr (c, argv q1))
       = (case locate_config p of Inl e \<Rightarrow> Inl e | Inr (c, p1) \<Rightarrow> Inr (c, argv p1))"
proof -
  have c: "embedded_config q = embedded_config p" "emsdk_embedded_config q = emsdk_embedded_config p"
    "user_home_config q = user_home_config p"
    using si by (simp_all add: same_inputs_def embedded_config_def emsdk_embedded_config_def
        emsdk_root_def user_home_config_def)
  have e: "path_exists (fs q) (embedded_config p) = path_exists (fs p) (embedded_config p)"
    "path_exists (fs q) (emsdk_embedded_config p) = path_exists (fs p) (emsdk_embedded_config p)"
    "path_exists (fs q) (user_home_config p) = path_exists (fs p) (user_home_config p)"
    using fs by (simp_all add: path_exists_def)
  show "(case locate_config q of Inl e \<Rightarrow> Inl e | Inr (c, q1) \<Rightarrow> Inr (c, argv q1))
       = (case locate_config p of Inl e \<Rightarrow> Inl e | Inr (c, p1) \<Rightarrow> Inr (c, argv p1))"
    using si c e
    by (auto simp: locate_config_def same_inputs_def root_is_writable_def Let_def
        split: option.splits)
qed

lemma set_del_at: "set (del_at i xs) \<subseteq> set xs"
  by (auto simp: del_at_def dest: in_set_takeD in_set_dropD)

lemma locate_config_argv:
  assumes "locate_config p = Inr (c, p1)"
  shows "\<exists>a. p1 = p\<lparr>argv := a\<rparr> \<and> set a \<subseteq> set (argv p)"
proof (cases "''--em-config'' \<in> set (argv p)")
  case True
  let ?i = "index_of ''--em-config'' (argv p)"
  from assms True have "p1 = p\<lparr>argv := del_at ?i (del_at (?i + 1) (argv p))\<rparr>"
    by (auto simp: locate_config_def Let_def split: if_splits)
  moreover have "set (del_at ?i (del_at (?i + 1) (argv p))) \<subseteq> set (argv p)"
    using set_del_at [of ?i "del_at (?i + 1) (argv p)"] set_del_at [of "?i + 1" "argv p"]
    by blast
  ultimately show ?thesis by blast
next
  case False
  with assms have "p1 = p"
    by (auto simp: locate_config_def split: if_splits option.splits)
  then have "p1 = p\<lparr>argv := argv p\<rparr>" by simp
  then show ?thesis by blast
qed

text \<open>
  C8.  Resolution is a function of the argument list, the environment, the source
  text and its evaluation, and the files it consults: two processes with the same
  inputs whose file systems agree on the consulted paths resolve to the same path, the
  same globals and the same store (or fail with the same error), whatever else differs
  between them.  In particular resolving twice from the same inputs gives the same
  resolved configuration.
\<close>

theorem resolution_deterministic:
  assumes si: "same_inputs p q"
    and fs: "\<forall>path \<in> consulted_paths p. fs q path = fs p path"
    and ng: "''--generate-config'' \<notin> set (argv p)"
  shows "resolved_config (load_module q) = resolved_config (load_module p)"
proof (cases "locate_config p")
  case (Inl e)
  have "(case locate_config q of Inl e \<Rightarrow> Inl e | Inr (c, q1) \<Rightarrow> Inr (c, argv q1))
       = (case locate_config p of Inl e \<Rightarrow> Inl e | Inr (c, p1) \<Rightarrow> Inr (c, argv p1))"
    using si fs by (intro locate_config_cong) (auto simp: consulted_paths_def)
  with Inl have "locate_config q = Inl e"
    by (auto split: sum.splits)
  with Inl show ?thesis
    by (simp add: load_module_def ebind_def initial_globals_def alloc_def)
next
  case (Inr r)
  obtain c p1 where r: "r = (c, p1)" by (cases r)
  with Inr have lp: "locate_config p = Inr (c, p1)" by simp
  from locate_config_argv [OF lp] obtain a where p1: "p1 = p\<lparr>argv := a\<rparr>" and sa: "set a \<subseteq> set (argv p)"
    by blast
  have "(case locate_config q of Inl e \<Rightarrow> Inl e | Inr (c, q1) \<Rightarrow> Inr (c, argv q1))
       = (case locate_config p of Inl e \<Rightarrow> Inl e | Inr (c, p1) \<Rightarrow> Inr (c, argv p1))"
    using si fs by (intro locate_config_cong) (auto simp: consulted_paths_def)
  with lp obtain q1 where lq: "locate_config q = Inr (c, q1)" and aq: "argv q1 = argv p1"
    by (auto split: sum.splits)
  from locate_config_argv [OF lq] aq p1 have q1: "q1 = q\<lparr>argv := a\<rparr>"
    by auto
  have ng1: "''--generate-config'' \<notin> set a" using ng sa by auto
  have ex: "expanduser q = expanduser p" using si by (simp add: same_inputs_def)
  have fc: "fs q (expanduser p c) = fs p (expanduser p c)"
    using fs lp by (simp add: consulted_paths_def)
  let ?c = "expanduser p c"
  have pc: "parse_config_file (q1\<lparr>environ := (environ q1)(''EM_CONFIG'' \<mapsto> ?c)\<rparr>) ?c
      = parse_config_file (p1\<lparr>environ := (environ p1)(''EM_CONFIG'' \<mapsto> ?c)\<rparr>) ?c"
    using si fc p1 q1
    by (intro ext parse_config_file_cong) (simp_all add: same_inputs_def)
  show ?thesis
    using lp lq p1 q1 ng1 ex fc pc
    by (auto simp: load_module_def ebind_def initial_globals_def alloc_def resolved_config_def
        path_exists_def Let_def split: sum.splits)
qed

theorem resolution_deterministic_witness:
  "fs (example_process [''emcc'', ''a.c''] [''EM_CONFIG'' \<mapsto> ''/cfg'']
         [''/cfg'' \<mapsto> File ''NODE_JS = 1'', ''/tmp/scratch'' \<mapsto> File ''x''] base_config [])
      ''/tmp/scratch''
     \<noteq> fs (example_process [''emcc'', ''a.c''] [''EM_CONFIG'' \<mapsto> ''/cfg'']
         [''/cfg'' \<mapsto> File ''NODE_JS = 1''] base_config []) ''/tmp/scratch''
   \<and> (case resolved_config (load_module
        (example_process [''emcc'', ''a.c''] [''EM_CONFIG'' \<mapsto> ''/cfg'']
           [''/cfg'' \<mapsto> File ''NODE_JS = 1''] base_config [])) of
        Inr (Some (path, g, h)) \<Rightarrow> path = ''/cfg''
      | _ \<Rightarrow> False)
   \<and> resolved_config (load_module
        (example_process [''emcc'', ''a.c''] [''EM_CONFIG'' \<mapsto> ''/cfg'']
           [''/cfg'' \<mapsto> File ''NODE_JS = 1'', ''/tmp/scratch'' \<mapsto> File ''x''] base_config []))
     = resolved_config (load_module
        (example_process [''emcc'', ''a.c''] [''EM_CONFIG'' \<mapsto> ''/cfg'']
           [''/cfg'' \<mapsto> File ''NODE_JS = 1''] base_config []))"
proof (intro conjI)
  let ?p = "example_process [''emcc'', ''a.c''] [''EM_CONFIG'' \<mapsto> ''/cfg'']
         [''/cfg'' \<mapsto> File ''NODE_JS = 1''] base_config []"
  let ?q = "example_process [''emcc'', ''a.c''] [''EM_CONFIG'' \<mapsto> ''/cfg'']
         [''/cfg'' \<mapsto> File ''NODE_JS = 1'', ''/tmp/scratch'' \<mapsto> File ''x''] base_config []"
  show "fs ?q ''/tmp/scratch'' \<noteq> fs ?p ''/tmp/scratch''"
    by (simp add: example_process_def)
  show "case resolved_config (load_module ?p) of
        Inr (Some (path, g, h)) \<Rightarrow> path = ''/cfg''
      | _ \<Rightarrow> False"
    by (simp add: load_module_def locate_config_def resolved_config_def path_exists_def
        base_config_def run_defs Let_def)
  have si: "same_inputs ?p ?q"
    by (simp add: same_inputs_def example_process_def)
  have lc: "locate_config ?p = Inr (''/cfg'', ?p)"
    by (simp add: locate_config_def example_process_def)
  have cp: "consulted_paths ?p =
      {''/emsdk/upstream/emscripten/.emscripten'', ''/emsdk/.emscripten'',
       ''/home/user/.emscripten'', ''/cfg''}"
    unfolding consulted_paths_def lc
    by (simp add: example_process_def embedded_config_def emsdk_embedded_config_def
        emsdk_root_def user_home_config_def path_join_def dirname_def rstrip_sep_def insert_commute)
  have fs: "\<forall>path \<in> consulted_paths ?p. fs ?q path = fs ?p path"
    unfolding cp by (simp add: example_process_def)
  have ng: "''--generate-config'' \<notin> set (argv ?p)"
    by (simp add: example_process_def)
  from resolution_deterministic [OF si fs ng]
  show "resolved_config (load_module ?q) = resolved_config (load_module ?p)" .
qed

end
